theory Spec2Isabelle
  imports Main "HOL-Library.AList" "HOL-Library.Multiset"
begin

section \<open>JavaScript values used by chat-manager.ts\<close>

text \<open>
  A string is a list of code units below 0x100, a reading of \<open>Date.now()\<close> is an integer, and an
  optional property (\<open>title?\<close>, \<open>parentID?\<close>) is an \<open>option\<close>, \<open>None\<close> standing for
  \<open>undefined\<close>. A \<open>Map<K, V>\<close> keeps its keys in insertion order: it is an association
  list, \<open>get\<close> is \<open>map_of\<close>, \<open>set\<close> is \<open>AList.update\<close> (an existing key keeps its place and
  takes the new value, a new key goes last) and \<open>values()\<close> is \<open>map snd\<close>.
\<close>

definition truthy :: "string option \<Rightarrow> bool" where
  "truthy v = (case v of None \<Rightarrow> False | Some s \<Rightarrow> s \<noteq> [])"

text \<open>
  The white space and line terminators of ECMAScript among these code units: tab, line
  feed, vertical tab, form feed, carriage return, space and the no-break space U+00A0.
\<close>

definition is_space :: "char \<Rightarrow> bool" where
  "is_space c =
     (c \<in> set [CHR 0x09, CHR 0x0A, CHR 0x0B, CHR 0x0C, CHR 0x0D, CHR '' '', CHR 0xA0])"

text \<open>\<open>String.prototype.trim\<close>: white space and line terminators go from both ends.\<close>

definition trim :: "string \<Rightarrow> string" where
  "trim s = rev (dropWhile is_space (rev (dropWhile is_space s)))"

datatype error = ChatNotFound | TypeError | DuplicateMessage | StoreRejected

datatype Role = User | Assistant | System

record Message =
  msg_id :: string
  parentID :: "string option"
  chatID :: string
  timestamp :: int
  role :: Role
  content :: string
  msg_done :: bool

record Parameters =
  apiKey :: "string option"

record UserSubmittedMessage =
  sub_chatID :: string
  sub_parentID :: "string option"
  sub_content :: string
  requestedParameters :: Parameters

section \<open>The message tree\<close>

text \<open>
  Modelled from the spec: the class \<open>MessageTree\<close> (\<open>./message-tree\<close>) is imported by
  chat-manager.ts and is not among the source files. The spec describes node storage by
  id, insertion that fails on an id already present, an in-place update of the mutable
  fields \<open>content\<close> and \<open>done\<close> that does nothing for an unknown id, the root-to-node
  chain, the effective root as \<open>first\<close>, and a flat serialization in insertion order.
  That a parent is present before its child is the caller's obligation
  (\<open>valid_insertion\<close>), which \<open>addMessage\<close> does not check.
\<close>

type_synonym MessageTree = "(string \<times> Message) list"

definition empty_tree :: MessageTree where
  "empty_tree = []"

definition addMessage :: "Message \<Rightarrow> MessageTree \<Rightarrow> error + MessageTree" where
  "addMessage m t =
     (case map_of t (msg_id m) of
        Some _ \<Rightarrow> Inl DuplicateMessage
      | None \<Rightarrow> Inr (t @ [(msg_id m, m)]))"

definition valid_insertion :: "Message \<Rightarrow> MessageTree \<Rightarrow> bool" where
  "valid_insertion m t =
     (map_of t (msg_id m) = None \<and>
      (case parentID m of None \<Rightarrow> True | Some p \<Rightarrow> map_of t p \<noteq> None))"

definition updateMessage :: "Message \<Rightarrow> MessageTree \<Rightarrow> MessageTree" where
  "updateMessage m t =
     (case map_of t (msg_id m) of
        None \<Rightarrow> t
      | Some n \<Rightarrow> AList.update (msg_id m) (n\<lparr>content := content m, msg_done := msg_done m\<rparr>) t)"

text \<open>
  Modelled from the spec: the chain climbs the parent links from the node; the number of
  nodes bounds the climb, so that a tree whose links are not well founded still gives a
  result.
\<close>

fun chain_up :: "nat \<Rightarrow> MessageTree \<Rightarrow> string \<Rightarrow> Message list" where
  "chain_up 0 t i = []"
| "chain_up (Suc n) t i =
     (case map_of t i of
        None \<Rightarrow> []
      | Some m \<Rightarrow>
          (case parentID m of
             None \<Rightarrow> [m]
           | Some p \<Rightarrow> chain_up n t p @ [m]))"

definition getMessageChainTo :: "MessageTree \<Rightarrow> string \<Rightarrow> Message list" where
  "getMessageChainTo t i = chain_up (length t) t i"

definition first :: "MessageTree \<Rightarrow> Message option" where
  "first t = List.find (\<lambda>m. parentID m = None) (map snd t)"

definition serialize :: "MessageTree \<Rightarrow> Message list" where
  "serialize t = map snd t"

section \<open>The chat store\<close>

record Chat =
  chat_id :: string
  title :: "string option"
  messages :: MessageTree
  created :: int
  updated :: int

text \<open>
  Chats are JavaScript objects: the map, the closures of a reply turn and the copies made
  by the search hold references to them. The store is a list of objects, a reference is
  an index into it, and allocation appends. \<open>emitted\<close> is the log of the
  \<open>EventEmitter\<close>, \<open>posted\<close> the log of the snapshots given to \<open>channel.postMessage\<close>,
  \<open>index\<close> the documents of the MiniSearch index by id.
\<close>

type_synonym ref = nat

datatype payload = NoArgs | Messages "Message list" | Title string string

record manager =
  heap :: "Chat list"
  chats :: "(string \<times> ref) list"
  loaded :: bool
  changed :: bool
  emitted :: "(string \<times> payload) list"
  posted :: "Chat list"
  index :: "(string \<times> string) list"

definition deref :: "manager \<Rightarrow> ref \<Rightarrow> Chat" where
  "deref s a = heap s ! a"

definition assign :: "ref \<Rightarrow> (Chat \<Rightarrow> Chat) \<Rightarrow> manager \<Rightarrow> manager" where
  "assign a f s = s\<lparr>heap := (heap s)[a := f (heap s ! a)]\<rparr>"

definition alloc :: "Chat \<Rightarrow> manager \<Rightarrow> ref \<times> manager" where
  "alloc c s = (length (heap s), s\<lparr>heap := heap s @ [c]\<rparr>)"

text \<open>Every reference of the map points into the store.\<close>

definition valid_refs :: "manager \<Rightarrow> bool" where
  "valid_refs s = list_all (\<lambda>(k, a). a < length (heap s)) (chats s)"

text \<open>
  \<open>this.emit(name, ...)\<close>: the constructor's listener on \<open>'update'\<close> sets the dirty flag;
  events are named by strings, so the listener fires on that name whoever emits it.
\<close>

definition emit :: "string \<Rightarrow> payload \<Rightarrow> manager \<Rightarrow> manager" where
  "emit name args s =
     s\<lparr>emitted := emitted s @ [(name, args)],
       changed := (if name = ''update'' then True else changed s)\<rparr>"

text \<open>\<open>channel.postMessage({ type: 'chat-update', data: chat })\<close> sends the chat as it is now.\<close>

definition postMessage :: "ref \<Rightarrow> manager \<Rightarrow> manager" where
  "postMessage a s = s\<lparr>posted := posted s @ [deref s a]\<rparr>"

text \<open>\<open>ChatManager.get\<close>.\<close>

definition get :: "manager \<Rightarrow> string \<Rightarrow> Chat option" where
  "get s i = map_option (deref s) (map_of (chats s) i)"

record envelope =
  env_type :: string
  env_data :: Chat

text \<open>
  \<open>channel.onmessage\<close> (lines 29-36): the received chat is a new object; the handler
  reads neither the type of the envelope nor any field of the chat but its id.
\<close>

definition onmessage :: "envelope \<Rightarrow> manager \<Rightarrow> manager" where
  "onmessage message s =
     (let i = chat_id (env_data message);
          (a, s1) = alloc (env_data message) s;
          s2 = s1\<lparr>chats := AList.update i a (chats s1)\<rparr>
      in emit i NoArgs s2)"

text \<open>
  The values a call takes from outside: the identifier \<open>uuidv4()\<close> returns and the two
  readings of \<open>Date.now()\<close> the call makes, in the order it makes them.
\<close>

record fresh =
  uuid :: string
  now1 :: int
  now2 :: int

text \<open>\<open>Array.prototype.join\<close>.\<close>

fun join :: "string \<Rightarrow> string list \<Rightarrow> string" where
  "join sep [] = []"
| "join sep [x] = x"
| "join sep (x # y # ys) = x @ sep @ join sep (y # ys)"

text \<open>
  \<open>Search.update\<close> (lines 233-246). Concatenating an undefined title gives the text
  \<open>undefined\<close>.
\<close>

definition search_update :: "ref \<Rightarrow> manager \<Rightarrow> manager" where
  "search_update a s =
     (let chat = deref s a;
          msgs = join [CHR 0x0A, CHR 0x0A] (map content (serialize (messages chat)));
          doc = (case title chat of None \<Rightarrow> ''undefined'' | Some t \<Rightarrow> t)
                  @ [CHR 0x0A, CHR 0x0A] @ msgs
      in if map_of (index s) (chat_id chat) = None
         then s\<lparr>index := index s @ [(chat_id chat, doc)]\<rparr>
         else s\<lparr>index := AList.update (chat_id chat) doc (index s)\<rparr>)"

text \<open>\<open>ChatManager.createChat\<close> (lines 50-65).\<close>

definition createChat :: "fresh \<Rightarrow> manager \<Rightarrow> string \<times> manager" where
  "createChat e s =
     (let chat = \<lparr>chat_id = uuid e, title = None, messages = empty_tree,
                   created = now1 e, updated = now2 e\<rparr>;
          (a, s1) = alloc chat s;
          s2 = s1\<lparr>chats := AList.update (uuid e) a (chats s1)\<rparr>;
          s3 = search_update a s2;
          s4 = postMessage a s3
      in (uuid e, s4))"

subsection \<open>A reply turn\<close>

text \<open>
  What the handlers of \<open>getReply\<close> close over: the reply message, the chat object found
  when the turn began, and the messages the turn was started with.
\<close>

record turn =
  reply :: Message
  chat_ref :: ref
  prompt :: "Message list"
  turn_parameters :: Parameters

text \<open>
  \<open>ChatManager.getReply\<close> (lines 113-139), up to the request: reading \<open>chatID\<close> of the
  last element of an empty array is a TypeError. The request itself
  (\<open>selectMessagesToSendSafely\<close>, \<open>createStreamingChatCompletion\<close>) is outside the
  repository's files; its events arrive at the handlers below.
\<close>

definition getReply :: "Message list \<Rightarrow> Parameters \<Rightarrow> fresh \<Rightarrow> manager \<Rightarrow> (error + turn) \<times> manager" where
  "getReply msgs params e s =
     (if msgs = [] then (Inl TypeError, s)
      else
        let latestMessage = last msgs in
        (case map_of (chats s) (chatID latestMessage) of
           None \<Rightarrow> (Inl ChatNotFound, s)
         | Some a \<Rightarrow>
             let r = \<lparr>msg_id = uuid e, parentID = Some (msg_id latestMessage),
                      chatID = chatID latestMessage, timestamp = now1 e,
                      role = Assistant, content = [], msg_done = False\<rparr>
             in (case addMessage r (messages (deref s a)) of
                   Inl err \<Rightarrow> (Inl err, s)
                 | Inr tr \<Rightarrow>
                     let s1 = assign a (\<lambda>c. c\<lparr>messages := tr\<rparr>) s;
                         s2 = assign a (\<lambda>c. c\<lparr>updated := now2 e\<rparr>) s1;
                         s3 = emit (chat_id (deref s2 a)) NoArgs s2;
                         s4 = postMessage a s3
                     in (Inr \<lparr>reply = r, chat_ref = a, prompt = msgs,
                               turn_parameters = params\<rparr>, s4))))"

text \<open>The \<open>newMessage\<close> of \<open>sendMessage\<close> (lines 74-82).\<close>

definition newMessage :: "UserSubmittedMessage \<Rightarrow> fresh \<Rightarrow> Chat \<Rightarrow> Message" where
  "newMessage message e chat =
     \<lparr>msg_id = uuid e, parentID = sub_parentID message, chatID = chat_id chat,
      timestamp = now1 e, role = User, content = sub_content message, msg_done = True\<rparr>"

text \<open>
  \<open>ChatManager.sendMessage\<close> (lines 67-97); \<open>e1\<close> holds the outside values of the call
  itself, \<open>e2\<close> those of the call of \<open>getReply\<close> it ends with.
\<close>

definition sendMessage :: "UserSubmittedMessage \<Rightarrow> fresh \<Rightarrow> fresh \<Rightarrow> manager \<Rightarrow> (error + turn) \<times> manager" where
  "sendMessage message e1 e2 s =
     (case map_of (chats s) (sub_chatID message) of
        None \<Rightarrow> (Inl ChatNotFound, s)
      | Some a \<Rightarrow>
          let m = newMessage message e1 (deref s a)
          in (case addMessage m (messages (deref s a)) of
                Inl err \<Rightarrow> (Inl err, s)
              | Inr tr \<Rightarrow>
                  let s1 = assign a (\<lambda>c. c\<lparr>messages := tr\<rparr>) s;
                      s2 = assign a (\<lambda>c. c\<lparr>updated := now2 e1\<rparr>) s1;
                      s3 = emit (chat_id (deref s2 a)) NoArgs s2;
                      s4 = emit ''messages'' (Messages [m]) s3;
                      s5 = postMessage a s4;
                      msgs = (if truthy (sub_parentID message)
                              then getMessageChainTo (messages (deref s5 a)) (the (sub_parentID message))
                              else [])
                  in getReply (msgs @ [m]) (requestedParameters message) e2 s5))"

text \<open>\<open>ChatManager.regenerate\<close> (lines 99-111).\<close>

definition regenerate :: "Message \<Rightarrow> Parameters \<Rightarrow> fresh \<Rightarrow> manager \<Rightarrow> (error + turn) \<times> manager" where
  "regenerate message params e s =
     (case map_of (chats s) (chatID message) of
        None \<Rightarrow> (Inl ChatNotFound, s)
      | Some a \<Rightarrow>
          let msgs = (if truthy (parentID message)
                      then getMessageChainTo (messages (deref s a)) (the (parentID message))
                      else [])
          in getReply msgs params e s)"

text \<open>The text the error handler appends (line 143), and what is left of it after \<open>trim\<close>.\<close>

definition apology :: string where
  "apology = [CHR 0x0A, CHR 0x0A] @ ''I'm sorry, I'm having trouble connecting to OpenAI. Please make sure you've entered your OpenAI API key correctly and try again.''"

definition apology_text :: string where
  "apology_text = ''I'm sorry, I'm having trouble connecting to OpenAI. Please make sure you've entered your OpenAI API key correctly and try again.''"

text \<open>The handler of \<open>'error'\<close> (lines 141-152); \<open>now\<close> is the reading of \<open>Date.now()\<close>.\<close>

definition on_error :: "int \<Rightarrow> turn \<Rightarrow> manager \<Rightarrow> turn \<times> manager" where
  "on_error now t s =
     (if content (reply t) = [] then
        let r1 = (reply t)\<lparr>content := content (reply t) @ apology\<rparr>;
            r2 = r1\<lparr>content := trim (content r1)\<rparr>;
            r3 = r2\<lparr>msg_done := True\<rparr>;
            a = chat_ref t;
            s1 = assign a (\<lambda>c. c\<lparr>messages := updateMessage r3 (messages c)\<rparr>) s;
            s2 = assign a (\<lambda>c. c\<lparr>updated := now\<rparr>) s1;
            s3 = emit (chat_id (deref s2 a)) NoArgs s2;
            s4 = emit ''messages'' (Messages [r3]) s3;
            s5 = postMessage a s4
        in (t\<lparr>reply := r3\<rparr>, s5)
      else (t, s))"

text \<open>The handler of \<open>'data'\<close> (lines 154-159).\<close>

definition on_data :: "string \<Rightarrow> turn \<Rightarrow> manager \<Rightarrow> turn \<times> manager" where
  "on_data d t s =
     (let r = (reply t)\<lparr>content := d\<rparr>;
          a = chat_ref t;
          s1 = assign a (\<lambda>c. c\<lparr>messages := updateMessage r (messages c)\<rparr>) s;
          s2 = emit (chat_id (deref s1 a)) NoArgs s1;
          s3 = postMessage a s2
      in (t\<lparr>reply := r\<rparr>, s3))"

text \<open>
  The handler of \<open>'done'\<close> (lines 161-181) up to \<open>await createTitle\<close>, which it reaches
  when the chat has no title; the refresh of the index that \<open>setTimeout\<close> defers is the
  step \<open>search_update\<close>, run later.
\<close>

definition on_done :: "int \<Rightarrow> turn \<Rightarrow> manager \<Rightarrow> turn \<times> manager" where
  "on_done now t s =
     (let r = (reply t)\<lparr>msg_done := True\<rparr>;
          a = chat_ref t;
          s1 = assign a (\<lambda>c. c\<lparr>messages := updateMessage r (messages c)\<rparr>) s;
          s2 = assign a (\<lambda>c. c\<lparr>updated := now\<rparr>) s1;
          s3 = emit (chat_id (deref s2 a)) NoArgs s2;
          s4 = emit ''messages'' (Messages [r]) s3;
          s5 = emit ''update'' NoArgs s4;
          s6 = postMessage a s5
      in (t\<lparr>reply := r\<rparr>, s6))"

text \<open>
  The rest of the handler of \<open>'done'\<close> (lines 171-180), run when the chat had no title
  and \<open>createTitle\<close> has returned \<open>created_title\<close>.
\<close>

definition on_title :: "string option \<Rightarrow> turn \<Rightarrow> manager \<Rightarrow> manager" where
  "on_title created_title t s =
     (let a = chat_ref t;
          s1 = assign a (\<lambda>c. c\<lparr>title := created_title\<rparr>) s
      in if truthy (title (deref s1 a)) then
           let s2 = emit (chat_id (deref s1 a)) NoArgs s1;
               s3 = emit ''title'' (Title (chat_id (deref s2 a)) (the (title (deref s2 a)))) s2;
               s4 = emit ''update'' NoArgs s3
           in postMessage a s4
         else s1)"

section \<open>Persistence\<close>

text \<open>
  What \<open>save\<close> hands to the durable store for one chat: the chat's own fields, with
  \<open>messages\<close> replaced by the serialized tree (lines 186-190).
\<close>

record SerializedChat =
  ser_id :: string
  ser_title :: "string option"
  ser_messages :: "Message list"
  ser_created :: int
  ser_updated :: int

definition serialized_of :: "Chat \<Rightarrow> SerializedChat" where
  "serialized_of c =
     \<lparr>ser_id = chat_id c, ser_title = title c, ser_messages = serialize (messages c),
      ser_created = created c, ser_updated = updated c\<rparr>"

text \<open>
  The running program: the manager, the slot \<open>'chats'\<close> of the durable store, whether the
  loop of lines 38-47 is still running, and how often \<open>save\<close> has been called.
\<close>

record process =
  mgr :: manager
  durable :: "SerializedChat list option"
  looping :: bool
  saves :: nat

text \<open>
  \<open>ChatManager.save\<close> (lines 184-192); \<open>accepted\<close> says whether \<open>idb.set\<close> fulfils its
  promise. A rejection leaves \<open>save\<close> as an exception.
\<close>

definition save :: "bool \<Rightarrow> process \<Rightarrow> error option \<times> process" where
  "save accepted p =
     (let serialized = map (\<lambda>a. serialized_of (deref (mgr p) a)) (map snd (chats (mgr p)));
          p1 = p\<lparr>saves := Suc (saves p)\<rparr>
      in if accepted then (None, p1\<lparr>durable := Some serialized\<rparr>)
         else (Some StoreRejected, p1))"

text \<open>
  One turn of the loop of lines 38-47, after \<open>sleep(100)\<close> has returned. Nothing in the
  loop catches an exception: one that leaves \<open>save\<close> leaves the loop.
\<close>

definition loop_turn :: "bool \<Rightarrow> process \<Rightarrow> process" where
  "loop_turn accepted p =
     (if \<not> looping p then p
      else if loaded (mgr p) \<and> changed (mgr p) then
        let p1 = p\<lparr>mgr := (mgr p)\<lparr>changed := False\<rparr>\<rparr>;
            (failure, p2) = save accepted p1
        in (case failure of None \<Rightarrow> p2 | Some err \<Rightarrow> p2\<lparr>looping := False\<rparr>)
      else p)"

text \<open>
  What happens to the process, in order: the loop wakes (with the answer of the durable
  store, should it save), or something else acts on the manager between two wakes.
\<close>

datatype occurrence = Wake bool | Act "manager \<Rightarrow> manager"

fun run :: "occurrence list \<Rightarrow> process \<Rightarrow> process" where
  "run [] p = p"
| "run (Wake accepted # os) p = run os (loop_turn accepted p)"
| "run (Act f # os) p = run os (p\<lparr>mgr := f (mgr p)\<rparr>)"

text \<open>The inner loop of \<open>load\<close> (lines 198-201): a new tree, filled by \<open>addMessage\<close>.\<close>

fun add_all :: "Message list \<Rightarrow> MessageTree \<Rightarrow> error + MessageTree" where
  "add_all [] t = Inr t"
| "add_all (m # ms) t =
     (case addMessage m t of Inl err \<Rightarrow> Inl err | Inr t' \<Rightarrow> add_all ms t')"

definition reconstruct :: "Message list \<Rightarrow> error + MessageTree" where
  "reconstruct ms = add_all ms empty_tree"

text \<open>\<open>ChatManager.loadChat\<close> (lines 210-217).\<close>

definition loadChat :: "Chat \<Rightarrow> manager \<Rightarrow> manager" where
  "loadChat chat s =
     (if chat_id chat = [] then s
      else
        let (a, s1) = alloc chat s;
            s2 = s1\<lparr>chats := AList.update (chat_id chat) a (chats s1)\<rparr>;
            s3 = search_update a s2
        in emit (chat_id chat) NoArgs s3)"

text \<open>
  \<open>ChatManager.load\<close> (lines 194-208); \<open>found\<close> is what \<open>idb.get('chats')\<close> gave. An
  exception of \<open>addMessage\<close> ends the call before \<open>loaded\<close> is set.
\<close>

fun load_each :: "SerializedChat list \<Rightarrow> manager \<Rightarrow> error option \<times> manager" where
  "load_each [] s = (None, s)"
| "load_each (c # cs) s =
     (case reconstruct (ser_messages c) of
        Inl err \<Rightarrow> (Some err, s)
      | Inr tr \<Rightarrow>
          load_each cs
            (loadChat \<lparr>chat_id = ser_id c, title = ser_title c, messages = tr,
                       created = ser_created c, updated = ser_updated c\<rparr> s))"

definition load :: "SerializedChat list option \<Rightarrow> manager \<Rightarrow> error option \<times> manager" where
  "load found s =
     (case found of
        None \<Rightarrow> (None, s\<lparr>loaded := True\<rparr>)
      | Some serialized \<Rightarrow>
          (case load_each serialized s of
             (Some err, s1) \<Rightarrow> (Some err, s1)
           | (None, s1) \<Rightarrow> (None, (emit ''update'' NoArgs s1)\<lparr>loaded := True\<rparr>)))"

section \<open>Search\<close>

text \<open>
  Modelled from the spec: \<open>ellipsize\<close> (\<open>./utils\<close>) is not among the source files; the
  spec has it truncate a text to a fixed length with an ellipsis marker.
\<close>

definition ellipsize :: "string \<Rightarrow> nat \<Rightarrow> string" where
  "ellipsize text maxLength =
     (if length text > maxLength then take maxLength text @ ''...'' else text)"

text \<open>
  An element of the array given to \<open>processSearchResults\<close> is a hit of the index, which
  carries an id, or a chat object of the map; the loop reads its \<open>id\<close>.
\<close>

datatype item = Hit string | Stored ref

definition item_id :: "manager \<Rightarrow> item \<Rightarrow> string" where
  "item_id s it = (case it of Hit i \<Rightarrow> i | Stored a \<Rightarrow> chat_id (deref s a))"

record found_chat =
  res_chatID :: string
  res_title :: string
  res_description :: string

text \<open>
  \<open>Search.processSearchResults\<close> (lines 268-297). \<open>process_item\<close> is the body of its
  loop for one element: the entry it pushes, if it pushes one. \<open>chat = { ...chat }\<close>
  allocates a new object with the fields of the stored one; the assignment to
  \<open>chat.title\<close> writes to it.
\<close>

definition process_item :: "item \<Rightarrow> manager \<Rightarrow> found_chat option \<times> manager" where
  "process_item it s =
     (case map_of (chats s) (item_id s it) of
        None \<Rightarrow> (None, s)
      | Some stored \<Rightarrow>
          (case alloc (deref s stored) s of
             (chat, s1) \<Rightarrow>
               let description =
                     ellipsize (case first (messages (deref s1 chat)) of
                                  None \<Rightarrow> [] | Some m \<Rightarrow> content m) 400;
                   s2 = (if \<not> truthy (title (deref s1 chat))
                         then assign chat (\<lambda>c. c\<lparr>title := Some (ellipsize description 100)\<rparr>) s1
                         else s1)
               in if \<not> truthy (title (deref s2 chat)) \<or> description = []
                  then (None, s2)
                  else (Some \<lparr>res_chatID = item_id s it,
                               res_title = the (title (deref s2 chat)),
                               res_description = description\<rparr>, s2)))"

fun process_items :: "item list \<Rightarrow> found_chat list \<Rightarrow> manager \<Rightarrow> found_chat list \<times> manager" where
  "process_items [] output s = (output, s)"
| "process_items (it # items) output s =
     (case process_item it s of
        (None, s') \<Rightarrow> process_items items output s'
      | (Some entry, s') \<Rightarrow> process_items items (output @ [entry]) s')"

definition processSearchResults :: "item list \<Rightarrow> manager \<Rightarrow> found_chat list \<times> manager" where
  "processSearchResults searchResults s = process_items searchResults [] s"

text \<open>
  \<open>Search.query\<close> (lines 248-266). \<open>search_index\<close> stands for \<open>MiniSearch.search\<close>, which
  is a library's: from the documents, the query and the option it gives the ids of its
  hits. \<open>Array.prototype.sort\<close> is stable, and so is \<open>sort_key\<close>.
\<close>

datatype search_option = Fuzzy | Prefix

definition query :: "((string \<times> string) list \<Rightarrow> string \<Rightarrow> search_option \<Rightarrow> string list) \<Rightarrow> string \<Rightarrow> manager \<Rightarrow> found_chat list \<times> manager" where
  "query search_index q s =
     (if length (trim q) = 0 then
        let searchResults =
              take 10 (sort_key (\<lambda>a. - updated (deref s a)) (map snd (chats s)))
        in processSearchResults (map Stored searchResults) s
      else
        (case processSearchResults (map Hit (search_index (index s) q Fuzzy)) s of
           (output, s1) \<Rightarrow>
             if output = []
             then processSearchResults (map Hit (search_index (index s1) q Prefix)) s1
             else (output, s1)))"

section \<open>Streams, built trees and sample states\<close>

text \<open>
  The events of one completion request, each with the reading of \<open>Date.now()\<close> its
  handler makes, delivered one after the other to the handlers of the turn.
\<close>

datatype stream_event = Data string | Error int | Done int

fun deliver :: "stream_event \<Rightarrow> turn \<times> manager \<Rightarrow> turn \<times> manager" where
  "deliver (Data d) (t, s) = on_data d t s"
| "deliver (Error now) (t, s) = on_error now t s"
| "deliver (Done now) (t, s) = on_done now t s"

definition stream :: "stream_event list \<Rightarrow> turn \<times> manager \<Rightarrow> turn \<times> manager" where
  "stream events ts = fold deliver events ts"

text \<open>
  Modelled from the spec: the transport, which is not among the source files, yields
  cumulative text, each text delivered being the beginning of every later one.
\<close>

definition cumulative :: "string list \<Rightarrow> bool" where
  "cumulative ds = sorted_wrt (\<lambda>a b. take (length a) b = a) ds"

text \<open>
  The trees reached from the empty tree by valid insertions, with updates in place in
  between.
\<close>

inductive built :: "MessageTree \<Rightarrow> bool" where
  built_empty: "built empty_tree"
| built_add: "built t \<Longrightarrow> valid_insertion m t \<Longrightarrow> addMessage m t = Inr t' \<Longrightarrow> built t'"
| built_update: "built t \<Longrightarrow> built (updateMessage m t)"

text \<open>A chat with one user message, and a manager that holds it.\<close>

definition ex_root :: Message where
  "ex_root = \<lparr>msg_id = ''m1'', parentID = None, chatID = ''c1'', timestamp = 1,
              role = User, content = ''Hello'', msg_done = True\<rparr>"

definition ex_chat :: Chat where
  "ex_chat = \<lparr>chat_id = ''c1'', title = None, messages = [(''m1'', ex_root)],
              created = 1, updated = 5\<rparr>"

definition ex_manager :: manager where
  "ex_manager = \<lparr>heap = [ex_chat], chats = [(''c1'', 0)], loaded = True, changed = False,
                 emitted = [], posted = [], index = []\<rparr>"

text \<open>A turn on that chat whose reply has been inserted and has no content yet.\<close>

definition ex_reply :: Message where
  "ex_reply = \<lparr>msg_id = ''m2'', parentID = Some ''m1'', chatID = ''c1'', timestamp = 6,
               role = Assistant, content = [], msg_done = False\<rparr>"

definition ex_turn :: turn where
  "ex_turn = \<lparr>reply = ex_reply, chat_ref = 0, prompt = [ex_root],
              turn_parameters = \<lparr>apiKey = None\<rparr>\<rparr>"

definition ex_pending :: manager where
  "ex_pending = ex_manager\<lparr>heap := [ex_chat\<lparr>messages := [(''m1'', ex_root), (''m2'', ex_reply)],
                                           updated := 6\<rparr>]\<rparr>"

text \<open>Submissions to that chat, without a parent and with the first message as parent.\<close>

definition ex_fresh1 :: fresh where "ex_fresh1 = \<lparr>uuid = ''m2'', now1 = 6, now2 = 7\<rparr>"
definition ex_fresh2 :: fresh where "ex_fresh2 = \<lparr>uuid = ''m3'', now1 = 8, now2 = 9\<rparr>"

definition ex_submission :: UserSubmittedMessage where
  "ex_submission = \<lparr>sub_chatID = ''c1'', sub_parentID = None, sub_content = ''Again'',
                    requestedParameters = \<lparr>apiKey = None\<rparr>\<rparr>"

definition ex_followup :: UserSubmittedMessage where
  "ex_followup = ex_submission\<lparr>sub_parentID := Some ''m1''\<rparr>"

text \<open>
  Four titled chats updated at 5, 3, 8 and 1, and a titled chat without messages.
\<close>

definition ex_titled :: "string \<Rightarrow> int \<Rightarrow> Chat" where
  "ex_titled i u = \<lparr>chat_id = i, title = Some i, messages = [(''m1'', ex_root)],
                    created = 1, updated = u\<rparr>"

definition ex_four :: manager where
  "ex_four = \<lparr>heap = [ex_titled ''a'' 5, ex_titled ''b'' 3, ex_titled ''c'' 8, ex_titled ''d'' 1],
              chats = [(''a'', 0), (''b'', 1), (''c'', 2), (''d'', 3)],
              loaded = True, changed = False, emitted = [], posted = [], index = []\<rparr>"

definition ex_empty_titled :: manager where
  "ex_empty_titled = ex_manager\<lparr>heap := [ex_chat\<lparr>title := Some ''Plans'', messages := empty_tree\<rparr>]\<rparr>"

text \<open>
  A process whose manager is loaded and dirty, and a tree built by two insertions and an
  update of the second node.
\<close>

definition ex_process :: process where
  "ex_process = \<lparr>mgr = ex_manager\<lparr>changed := True\<rparr>, durable = None, looping = True, saves = 0\<rparr>"

definition ex_tree :: MessageTree where
  "ex_tree = updateMessage (ex_reply\<lparr>content := ''Hi'', msg_done := True\<rparr>)
               [(''m1'', ex_root), (''m2'', ex_reply)]"

section \<open>Reading and writing the store\<close>

lemma map_of_update_same: "map_of (AList.update k v al) k = Some v"
  by (simp add: update_conv')

lemma valid_refs_lookup: "valid_refs s \<Longrightarrow> map_of (chats s) k = Some a \<Longrightarrow> a < length (heap s)"
  by (auto simp: valid_refs_def list_all_iff dest: map_of_SomeD)

lemma deref_assign:
  "deref (assign a f s) b = (if a = b \<and> a < length (heap s) then f (deref s a) else deref s b)"
  by (cases "a < length (heap s)")
    (simp_all add: deref_def assign_def nth_list_update list_update_beyond)

lemma length_heap_assign: "length (heap (assign a f s)) = length (heap s)"
  by (simp add: assign_def)

lemma deref_emit: "deref (emit n x s) a = deref s a"
  by (simp add: deref_def emit_def)

lemma heap_emit: "heap (emit n x s) = heap s"
  by (simp add: emit_def)

lemma deref_postMessage: "deref (postMessage a s) b = deref s b"
  by (simp add: deref_def postMessage_def)

lemma heap_postMessage: "heap (postMessage a s) = heap s"
  by (simp add: postMessage_def)

lemma posted_postMessage: "posted (postMessage a s) = posted s @ [deref s a]"
  by (simp add: postMessage_def)

lemma posted_emit: "posted (emit n x s) = posted s"
  by (simp add: emit_def)

lemma posted_assign: "posted (assign a f s) = posted s"
  by (simp add: assign_def)

lemmas frame = deref_assign length_heap_assign deref_emit heap_emit deref_postMessage
  heap_postMessage posted_postMessage posted_emit posted_assign

text \<open>The operations of the manager keep the references of the map valid.\<close>

lemma set_update_subset: "set (AList.update k v al) \<subseteq> insert (k, v) (set al)"
  by (induction al) auto

lemma valid_refs_assign: "valid_refs (assign a f s) = valid_refs s"
  by (simp add: valid_refs_def assign_def)

lemma valid_refs_emit: "valid_refs (emit n x s) = valid_refs s"
  by (simp add: valid_refs_def emit_def)

lemma valid_refs_postMessage: "valid_refs (postMessage a s) = valid_refs s"
  by (simp add: valid_refs_def postMessage_def)

lemma valid_refs_search_update: "valid_refs (search_update a s) = valid_refs s"
  by (simp add: valid_refs_def search_update_def Let_def)

lemma valid_refs_grown: "valid_refs s \<Longrightarrow> valid_refs (s\<lparr>heap := heap s @ copies\<rparr>)"
  by (auto simp: valid_refs_def list_all_iff)

lemma valid_refs_stored:
  assumes "valid_refs s"
  shows "valid_refs ((snd (alloc c s))\<lparr>chats := AList.update k (fst (alloc c s)) (chats (snd (alloc c s)))\<rparr>)"
proof -
  have "b < Suc (length (heap s))" if "(j, b) \<in> set (AList.update k (length (heap s)) (chats s))" for j b
  proof -
    from that set_update_subset [of k "length (heap s)" "chats s"]
    have "(j, b) = (k, length (heap s)) \<or> (j, b) \<in> set (chats s)" by blast
    then show ?thesis
    proof
      assume "(j, b) = (k, length (heap s))"
      then show ?thesis by simp
    next
      assume "(j, b) \<in> set (chats s)"
      with assms have "b < length (heap s)" by (auto simp: valid_refs_def list_all_iff)
      then show ?thesis by simp
    qed
  qed
  then show ?thesis by (auto simp: valid_refs_def list_all_iff alloc_def)
qed

lemma valid_refs_onmessage: "valid_refs s \<Longrightarrow> valid_refs (onmessage message s)"
  using valid_refs_stored [where s = s and c = "env_data message" and k = "chat_id (env_data message)"]
  by (simp add: onmessage_def Let_def valid_refs_emit split_def)

lemma valid_refs_createChat: "valid_refs s \<Longrightarrow> valid_refs (snd (createChat e s))"
  using valid_refs_stored [where s = s and k = "uuid e"]
  by (simp add: createChat_def Let_def valid_refs_postMessage valid_refs_search_update split_def)

lemma valid_refs_loadChat: "valid_refs s \<Longrightarrow> valid_refs (loadChat chat s)"
  using valid_refs_stored [where s = s and c = chat and k = "chat_id chat"]
  by (simp add: loadChat_def Let_def valid_refs_emit valid_refs_search_update split_def)

lemma valid_refs_getReply: "valid_refs s \<Longrightarrow> valid_refs (snd (getReply msgs params e s))"
  by (simp add: getReply_def Let_def valid_refs_postMessage valid_refs_emit valid_refs_assign
      split: option.splits sum.splits)

lemma valid_refs_sendMessage: "valid_refs s \<Longrightarrow> valid_refs (snd (sendMessage message e1 e2 s))"
  by (simp add: sendMessage_def Let_def valid_refs_getReply valid_refs_postMessage
      valid_refs_emit valid_refs_assign split: option.splits sum.splits)

lemma valid_refs_deliver: "valid_refs s \<Longrightarrow> valid_refs (snd (deliver ev (t, s)))"
  by (cases ev)
    (simp_all add: on_data_def on_error_def on_done_def Let_def valid_refs_postMessage
      valid_refs_emit valid_refs_assign)

section \<open>Replication\<close>

text \<open>
  C3. Whatever the store holds, after the handler of an incoming envelope has run the
  chat found under the envelope's chat id is the received chat: no field of the stored
  chat, its \<open>updated\<close> included, is compared with the incoming one.
\<close>

theorem onmessage_overwrites:
  "get (onmessage message s) (chat_id (env_data message)) = Some (env_data message)"
  by (simp add: get_def onmessage_def alloc_def emit_def deref_def Let_def map_of_update_same)

text \<open>The stored chat was updated at 5, the incoming one at 2, and the incoming one stays.\<close>

theorem onmessage_overwrites_witness:
  "updated (ex_chat\<lparr>updated := 2\<rparr>) < updated (the (get ex_manager ''c1'')) \<and>
   get (onmessage \<lparr>env_type = ''chat-update'', env_data = ex_chat\<lparr>updated := 2\<rparr>\<rparr> ex_manager) ''c1''
     = Some (ex_chat\<lparr>updated := 2\<rparr>)"
  using onmessage_overwrites [of "\<lparr>env_type = ''chat-update'', env_data = ex_chat\<lparr>updated := 2\<rparr>\<rparr>" ex_manager]
  by (simp add: get_def ex_manager_def ex_chat_def deref_def)

section \<open>Sending a message\<close>

text \<open>
  C2. A submission whose chat id is not a key of the map makes \<open>sendMessage\<close> fail with
  \<open>ChatNotFound\<close> and leaves the whole state as it was: the store of chat objects (their
  trees and their \<open>updated\<close>), the log of posted snapshots and the log of events.
\<close>

theorem sendMessage_unknown_chat:
  assumes "map_of (chats s) (sub_chatID message) = None"
  shows "sendMessage message e1 e2 s = (Inl ChatNotFound, s)"
  using assms by (simp add: sendMessage_def)

theorem sendMessage_unknown_chat_witness:
  "map_of (chats ex_manager) ''c9'' = None \<and>
   sendMessage \<lparr>sub_chatID = ''c9'', sub_parentID = None, sub_content = ''Hi'',
                requestedParameters = \<lparr>apiKey = None\<rparr>\<rparr>
     \<lparr>uuid = ''m2'', now1 = 6, now2 = 7\<rparr> \<lparr>uuid = ''m3'', now1 = 8, now2 = 9\<rparr> ex_manager
   = (Inl ChatNotFound, ex_manager)"
proof -
  have h: "map_of (chats ex_manager)
             (sub_chatID \<lparr>sub_chatID = ''c9'', sub_parentID = None, sub_content = ''Hi'',
                          requestedParameters = \<lparr>apiKey = None\<rparr>\<rparr>) = None"
    by (simp add: ex_manager_def)
  show ?thesis using h sendMessage_unknown_chat [OF h] by simp
qed

section \<open>The events of a reply turn\<close>

lemma trim_apology: "trim ([] @ apology) = apology_text"
  by (simp add: trim_def apology_def apology_text_def is_space_def)

lemma on_error_empty:
  assumes "content (reply t) = []"
  shows "content (reply (fst (on_error now t s))) = apology_text \<and>
         msg_done (reply (fst (on_error now t s)))"
  using assms trim_apology by (simp add: on_error_def Let_def)

lemma on_error_nonempty:
  assumes "content (reply t) \<noteq> []"
  shows "on_error now t s = (t, s)"
  using assms by (simp add: on_error_def)

lemma on_data_content: "content (reply (fst (on_data d t s))) = d"
  by (simp add: on_data_def Let_def)

lemma stream_snoc: "stream (events @ [ev]) ts = deliver ev (stream events ts)"
  by (simp add: stream_def)

lemma stream_data_content:
  "ds \<noteq> [] \<Longrightarrow> content (reply (fst (stream (map Data ds) ts))) = last ds"
proof (induction ds arbitrary: ts rule: rev_induct)
  case Nil
  then show ?case by simp
next
  case (snoc d ds)
  obtain t s where ts: "stream (map Data ds) ts = (t, s)"
    by (cases "stream (map Data ds) ts")
  then show ?case by (simp add: stream_def on_data_content)
qed

lemma cumulative_last:
  assumes "cumulative ds" and "d \<in> set ds" and "d \<noteq> []"
  shows "last ds \<noteq> []"
proof (cases ds rule: rev_cases)
  case Nil
  with assms(2) show ?thesis by simp
next
  case (snoc xs l)
  show ?thesis
  proof (cases "d = l")
    case True
    with assms(3) snoc show ?thesis by simp
  next
    case False
    with assms(2) snoc have "d \<in> set xs" by simp
    with assms(1) snoc have "take (length d) l = d"
      by (simp add: cumulative_def sorted_wrt_append)
    with assms(3) have "l \<noteq> []" by auto
    with snoc show ?thesis by simp
  qed
qed

lemma updateMessage_node:
  assumes "map_of tr (msg_id m) = Some n"
  shows "map_of (updateMessage m tr) (msg_id m)
         = Some (n\<lparr>content := content m, msg_done := msg_done m\<rparr>)"
  using assms by (simp add: updateMessage_def map_of_update_same)

lemma on_error_emitted:
  assumes "content (reply t) = []"
  shows "emitted (snd (on_error now t s))
         = emitted s @ [(chat_id (deref s (chat_ref t)), NoArgs),
                        (''messages'', Messages [reply (fst (on_error now t s))])]"
  using assms
  by (cases "chat_ref t < length (heap s)")
    (simp_all add: on_error_def Let_def emit_def postMessage_def assign_def deref_def
      list_update_beyond)

lemma on_error_posted:
  assumes "content (reply t) = []"
  shows "posted (snd (on_error now t s))
         = posted s @ [deref (snd (on_error now t s)) (chat_ref t)]"
  using assms by (simp add: on_error_def Let_def emit_def postMessage_def assign_def deref_def)

lemma on_error_tree:
  assumes "content (reply t) = []" and "chat_ref t < length (heap s)"
  shows "messages (deref (snd (on_error now t s)) (chat_ref t))
         = updateMessage (reply (fst (on_error now t s))) (messages (deref s (chat_ref t)))"
  using assms by (simp add: on_error_def Let_def frame)

lemma on_error_reply_id: "msg_id (reply (fst (on_error now t s))) = msg_id (reply t)"
  by (simp add: on_error_def Let_def)

lemma on_error_node:
  assumes "content (reply t) = []" and "chat_ref t < length (heap s)"
    and "map_of (messages (deref s (chat_ref t))) (msg_id (reply t)) = Some n"
  shows "map_of (messages (deref (snd (on_error now t s)) (chat_ref t))) (msg_id (reply t))
         = Some (n\<lparr>content := apology_text, msg_done := True\<rparr>)"
proof -
  let ?r = "reply (fst (on_error now t s))"
  have "map_of (messages (deref s (chat_ref t))) (msg_id ?r) = Some n"
    using assms(3) by (simp add: on_error_reply_id)
  then have "map_of (updateMessage ?r (messages (deref s (chat_ref t)))) (msg_id ?r)
             = Some (n\<lparr>content := content ?r, msg_done := msg_done ?r\<rparr>)"
    by (rule updateMessage_node)
  then show ?thesis
    using on_error_tree [OF assms(1,2), of now] on_error_empty [OF assms(1), of now s]
    by (simp add: on_error_reply_id)
qed

text \<open>
  C1. An error event that finds the reply's content empty makes the content the apology
  text and sets \<open>done\<close>, in the reply the handlers hold and, through \<open>updateMessage\<close>, in
  the node of that id in the tree of the turn's chat; it emits the chat's event and
  \<open>messages\<close> with the reply, and posts the chat as it then is. An error event that
  finds content leaves the turn and the whole
  state as they were; in particular, after data events of which the last one delivered a
  text that is not empty, the content is that text and the error event changes nothing.
  That is so whenever one of the data events of a cumulative stream delivered a text that
  is not empty.
\<close>

theorem error_event:
  "(content (reply t) = [] \<longrightarrow>
      content (reply (fst (on_error now t s))) = apology_text \<and>
      msg_done (reply (fst (on_error now t s))) \<and>
      emitted (snd (on_error now t s))
        = emitted s @ [(chat_id (deref s (chat_ref t)), NoArgs),
                       (''messages'', Messages [reply (fst (on_error now t s))])] \<and>
      posted (snd (on_error now t s))
        = posted s @ [deref (snd (on_error now t s)) (chat_ref t)]) \<and>
   (content (reply t) = [] \<and> chat_ref t < length (heap s) \<longrightarrow>
      messages (deref (snd (on_error now t s)) (chat_ref t))
        = updateMessage (reply (fst (on_error now t s))) (messages (deref s (chat_ref t))) \<and>
      (\<forall>n. map_of (messages (deref s (chat_ref t))) (msg_id (reply t)) = Some n \<longrightarrow>
         map_of (messages (deref (snd (on_error now t s)) (chat_ref t))) (msg_id (reply t))
           = Some (n\<lparr>content := apology_text, msg_done := True\<rparr>))) \<and>
   (content (reply t) \<noteq> [] \<longrightarrow> on_error now t s = (t, s)) \<and>
   (ds \<noteq> [] \<and> last ds \<noteq> [] \<longrightarrow>
      content (reply (fst (stream (map Data ds) (t, s)))) = last ds \<and>
      stream (map Data ds @ [Error now]) (t, s) = stream (map Data ds) (t, s)) \<and>
   (cumulative ds \<and> (\<exists>d \<in> set ds. d \<noteq> []) \<longrightarrow>
      last ds \<noteq> [] \<and>
      stream (map Data ds @ [Error now]) (t, s) = stream (map Data ds) (t, s))"
proof (intro conjI impI allI)
  assume e: "content (reply t) = []"
  then show "content (reply (fst (on_error now t s))) = apology_text"
    and "msg_done (reply (fst (on_error now t s)))"
    using on_error_empty by blast+
  from e show "emitted (snd (on_error now t s))
        = emitted s @ [(chat_id (deref s (chat_ref t)), NoArgs),
                       (''messages'', Messages [reply (fst (on_error now t s))])]"
    by (rule on_error_emitted)
  from e show "posted (snd (on_error now t s))
        = posted s @ [deref (snd (on_error now t s)) (chat_ref t)]"
    by (rule on_error_posted)
next
  assume e: "content (reply t) = [] \<and> chat_ref t < length (heap s)"
  then show "messages (deref (snd (on_error now t s)) (chat_ref t))
        = updateMessage (reply (fst (on_error now t s))) (messages (deref s (chat_ref t)))"
    by (simp add: on_error_tree)
  fix n
  assume "map_of (messages (deref s (chat_ref t))) (msg_id (reply t)) = Some n"
  with e show "map_of (messages (deref (snd (on_error now t s)) (chat_ref t))) (msg_id (reply t))
           = Some (n\<lparr>content := apology_text, msg_done := True\<rparr>)"
    by (simp add: on_error_node)
next
  assume "content (reply t) \<noteq> []"
  then show "on_error now t s = (t, s)" by (rule on_error_nonempty)
next
  assume h: "ds \<noteq> [] \<and> last ds \<noteq> []"
  then show c: "content (reply (fst (stream (map Data ds) (t, s)))) = last ds"
    by (simp add: stream_data_content)
  obtain t' s' where ts: "stream (map Data ds) (t, s) = (t', s')"
    by (cases "stream (map Data ds) (t, s)")
  with c h have "content (reply t') \<noteq> []" by simp
  then show "stream (map Data ds @ [Error now]) (t, s) = stream (map Data ds) (t, s)"
    by (simp add: stream_snoc ts on_error_nonempty)
next
  assume h: "cumulative ds \<and> (\<exists>d \<in> set ds. d \<noteq> [])"
  then show l: "last ds \<noteq> []" using cumulative_last by blast
  from h have n: "ds \<noteq> []" by auto
  obtain t' s' where ts: "stream (map Data ds) (t, s) = (t', s')"
    by (cases "stream (map Data ds) (t, s)")
  with stream_data_content [OF n, of "(t, s)"] l have "content (reply t') \<noteq> []" by simp
  then show "stream (map Data ds @ [Error now]) (t, s) = stream (map Data ds) (t, s)"
    by (simp add: stream_snoc ts on_error_nonempty)
qed

theorem error_event_witness:
  "content (reply ex_turn) = [] \<and>
   content (reply (fst (on_error 9 ex_turn ex_pending))) = apology_text \<and>
   msg_done (reply (fst (on_error 9 ex_turn ex_pending))) \<and>
   chat_ref ex_turn < length (heap ex_pending) \<and>
   map_of (messages (deref ex_pending 0)) ''m2'' = Some ex_reply \<and>
   map_of (messages (deref (snd (on_error 9 ex_turn ex_pending)) 0)) ''m2''
     = Some (ex_reply\<lparr>content := apology_text, msg_done := True\<rparr>) \<and>
   emitted (snd (on_error 9 ex_turn ex_pending))
     = [(''c1'', NoArgs),
        (''messages'', Messages [ex_reply\<lparr>content := apology_text, msg_done := True\<rparr>])] \<and>
   length (posted (snd (on_error 9 ex_turn ex_pending))) = 1 \<and>
   map_of (messages (posted (snd (on_error 9 ex_turn ex_pending)) ! 0)) ''m2''
     = Some (ex_reply\<lparr>content := apology_text, msg_done := True\<rparr>) \<and>
   content (reply (fst (on_data ''Hi'' ex_turn ex_pending))) \<noteq> [] \<and>
   on_error 9 (fst (on_data ''Hi'' ex_turn ex_pending)) (snd (on_data ''Hi'' ex_turn ex_pending))
     = on_data ''Hi'' ex_turn ex_pending \<and>
   content (reply (fst (stream (map Data [''H'', ''Hi'']) (ex_turn, ex_pending)))) = ''Hi'' \<and>
   cumulative [''H'', ''Hi''] \<and>
   stream (map Data [''H'', ''Hi''] @ [Error 9]) (ex_turn, ex_pending)
     = stream (map Data [''H'', ''Hi'']) (ex_turn, ex_pending)"
proof -
  have c: "content (reply ex_turn) = []" "chat_ref ex_turn = 0" "msg_id (reply ex_turn) = ''m2''"
    by (simp_all add: ex_turn_def ex_reply_def)
  have h: "chat_ref ex_turn < length (heap ex_pending)"
    by (simp add: ex_turn_def ex_pending_def)
  have n: "map_of (messages (deref ex_pending 0)) ''m2'' = Some ex_reply"
    by (simp add: ex_pending_def deref_def)
  have p: "emitted ex_pending = []" "posted ex_pending = []" "chat_id (deref ex_pending 0) = ''c1''"
    by (simp_all add: ex_pending_def ex_manager_def ex_chat_def deref_def)
  have r: "reply (fst (on_error 9 ex_turn ex_pending))
           = ex_reply\<lparr>content := apology_text, msg_done := True\<rparr>"
    using trim_apology by (simp add: on_error_def Let_def ex_turn_def ex_reply_def)
  have cu: "cumulative [''H'', ''Hi'']" by (simp add: cumulative_def)
  note E = error_event [of ex_turn 9 ex_pending "[''H'', ''Hi'']"]
  from E c(1) have a: "content (reply (fst (on_error 9 ex_turn ex_pending))) = apology_text"
    "msg_done (reply (fst (on_error 9 ex_turn ex_pending)))"
    by blast+
  from E c(1) have B: "emitted (snd (on_error 9 ex_turn ex_pending))
        = emitted ex_pending @ [(chat_id (deref ex_pending (chat_ref ex_turn)), NoArgs),
                       (''messages'', Messages [reply (fst (on_error 9 ex_turn ex_pending))])]"
    "posted (snd (on_error 9 ex_turn ex_pending))
        = posted ex_pending @ [deref (snd (on_error 9 ex_turn ex_pending)) (chat_ref ex_turn)]"
    by blast+
  from E c(1) h have D: "\<forall>n. map_of (messages (deref ex_pending (chat_ref ex_turn))) (msg_id (reply ex_turn)) = Some n \<longrightarrow>
         map_of (messages (deref (snd (on_error 9 ex_turn ex_pending)) (chat_ref ex_turn))) (msg_id (reply ex_turn))
           = Some (n\<lparr>content := apology_text, msg_done := True\<rparr>)"
    by blast
  have node: "map_of (messages (deref (snd (on_error 9 ex_turn ex_pending)) 0)) ''m2''
     = Some (ex_reply\<lparr>content := apology_text, msg_done := True\<rparr>)"
    using D n by (simp add: c(2,3))
  have em: "emitted (snd (on_error 9 ex_turn ex_pending))
     = [(''c1'', NoArgs),
        (''messages'', Messages [ex_reply\<lparr>content := apology_text, msg_done := True\<rparr>])]"
    using B(1) by (simp add: c(2) p r)
  have po: "posted (snd (on_error 9 ex_turn ex_pending))
             = [deref (snd (on_error 9 ex_turn ex_pending)) 0]"
    using B(2) by (simp add: c(2) p)
  have l: "[''H'', ''Hi''] \<noteq> [] \<and> last [''H'', ''Hi''] \<noteq> ([] :: string)" by simp
  from E l have st: "content (reply (fst (stream (map Data [''H'', ''Hi'']) (ex_turn, ex_pending)))) = ''Hi''"
      "stream (map Data [''H'', ''Hi''] @ [Error 9]) (ex_turn, ex_pending)
       = stream (map Data [''H'', ''Hi'']) (ex_turn, ex_pending)"
    by simp_all
  have d: "content (reply (fst (on_data ''Hi'' ex_turn ex_pending))) \<noteq> []"
    by (simp add: on_data_content)
  from error_event [of "fst (on_data ''Hi'' ex_turn ex_pending)" 9
      "snd (on_data ''Hi'' ex_turn ex_pending)" "[]"] d
  have ig: "on_error 9 (fst (on_data ''Hi'' ex_turn ex_pending)) (snd (on_data ''Hi'' ex_turn ex_pending))
     = on_data ''Hi'' ex_turn ex_pending"
    by simp
  have po1: "length (posted (snd (on_error 9 ex_turn ex_pending))) = 1"
    "map_of (messages (posted (snd (on_error 9 ex_turn ex_pending)) ! 0)) ''m2''
     = Some (ex_reply\<lparr>content := apology_text, msg_done := True\<rparr>)"
    using node by (simp_all add: po)
  from c(1) a h n node em po1 d ig st(1) cu st(2) show ?thesis by (intro conjI)
qed

lemma getReply_Inr:
  assumes "getReply msgs params e s = (Inr t, s')"
  shows "msgs \<noteq> [] \<and> map_of (chats s) (chatID (last msgs)) = Some (chat_ref t) \<and>
         prompt t = msgs \<and>
         s' = postMessage (chat_ref t) (emit (chat_id (deref s (chat_ref t))) NoArgs
                (assign (chat_ref t) (\<lambda>c. c\<lparr>updated := now2 e\<rparr>)
                   (assign (chat_ref t)
                      (\<lambda>c. c\<lparr>messages := messages (deref s (chat_ref t)) @ [(uuid e, reply t)]\<rparr>) s)))"
  using assms
  by (auto simp: getReply_def Let_def addMessage_def deref_assign deref_emit
      split: if_splits option.splits sum.splits)

lemma sendMessage_Inr:
  assumes "sendMessage message e1 e2 s = (Inr t, s')"
    and "map_of (chats s) (sub_chatID message) = Some a"
  shows "map_of (messages (deref s a)) (uuid e1) = None \<and>
     getReply
           ((if truthy (sub_parentID message)
             then getMessageChainTo
                    (messages (deref (assign a (\<lambda>c. c\<lparr>messages := messages (deref s a) @ [(uuid e1, newMessage message e1 (deref s a))]\<rparr>) s) a))
                    (the (sub_parentID message))
             else []) @ [newMessage message e1 (deref s a)])
           (requestedParameters message) e2
           (postMessage a
              (emit ''messages'' (Messages [newMessage message e1 (deref s a)])
                 (emit (chat_id (deref s a)) NoArgs
                    (assign a (\<lambda>c. c\<lparr>updated := now2 e1\<rparr>)
                       (assign a (\<lambda>c. c\<lparr>messages := messages (deref s a) @ [(uuid e1, newMessage message e1 (deref s a))]\<rparr>) s))))) = (Inr t, s')"
  using assms
  by (auto simp: sendMessage_def Let_def addMessage_def newMessage_def deref_assign deref_emit deref_postMessage
      split: option.splits sum.splits if_splits)

text \<open>
  C4 (as amended). When \<open>sendMessage\<close> succeeds on a chat of the map, the node it
  inserts has the submission's parent as its parent, and none when the submission names
  none; it is in the chat's tree when the call returns; and the turn is driven with the
  chain to the stated parent in the tree that holds the new node, followed by the new
  message, which is the new message alone when no parent is stated.
\<close>

theorem sendMessage_prompt:
  assumes "valid_refs s"
    and "map_of (chats s) (sub_chatID message) = Some a"
    and "sendMessage message e1 e2 s = (Inr t, s')"
  shows "let m = newMessage message e1 (deref s a) in
           parentID m = sub_parentID message \<and>
           map_of (messages (deref s' a)) (msg_id m) = Some m \<and>
           prompt t =
             (if truthy (sub_parentID message)
              then getMessageChainTo (messages (deref s a) @ [(msg_id m, m)])
                     (the (sub_parentID message))
              else []) @ [m]"
proof -
  let ?m = "newMessage message e1 (deref s a)"
  let ?tr = "messages (deref s a) @ [(uuid e1, ?m)]"
  have lt: "a < length (heap s)" using assms(1,2) by (rule valid_refs_lookup)
  have id: "msg_id ?m = uuid e1" by (simp add: newMessage_def)
  from sendMessage_Inr [OF assms(3,2)]
  have fresh: "map_of (messages (deref s a)) (uuid e1) = None"
    and g: "getReply
           ((if truthy (sub_parentID message)
             then getMessageChainTo (messages (deref (assign a (\<lambda>c. c\<lparr>messages := ?tr\<rparr>) s) a))
                    (the (sub_parentID message))
             else []) @ [?m])
           (requestedParameters message) e2
           (postMessage a
              (emit ''messages'' (Messages [?m])
                 (emit (chat_id (deref s a)) NoArgs
                    (assign a (\<lambda>c. c\<lparr>updated := now2 e1\<rparr>)
                       (assign a (\<lambda>c. c\<lparr>messages := ?tr\<rparr>) s))))) = (Inr t, s')"
    by simp_all
  have in_tr: "map_of ?tr (uuid e1) = Some ?m"
    using fresh by (simp add: map_add_def)
  note G = getReply_Inr [OF g]
  have p: "prompt t = (if truthy (sub_parentID message)
               then getMessageChainTo ?tr (the (sub_parentID message))
               else []) @ [?m]"
    using G lt by (simp add: deref_assign)
  have s': "map_of (messages (deref s' a)) (uuid e1) = Some ?m"
  proof (cases "chat_ref t = a")
    case True
    then show ?thesis using G lt fresh
      by (simp add: frame map_add_def)
  next
    case False
    then show ?thesis using G lt in_tr
      by (simp add: frame)
  qed
  have "parentID ?m = sub_parentID message" by (simp add: newMessage_def)
  with p s' id show ?thesis by (simp add: Let_def)
qed

lemma ex_send:
  "fst (sendMessage ex_followup ex_fresh1 ex_fresh2 ex_manager)
   = Inr \<lparr>reply = \<lparr>msg_id = ''m3'', parentID = Some ''m2'', chatID = ''c1'', timestamp = 8,
                    role = Assistant, content = [], msg_done = False\<rparr>,
           chat_ref = 0,
           prompt = [ex_root, newMessage ex_followup ex_fresh1 ex_chat],
           turn_parameters = \<lparr>apiKey = None\<rparr>\<rparr>"
  by (simp add: sendMessage_def getReply_def ex_followup_def ex_submission_def ex_fresh1_def
      ex_fresh2_def ex_manager_def ex_chat_def ex_root_def newMessage_def addMessage_def
      deref_def assign_def emit_def postMessage_def truthy_def getMessageChainTo_def Let_def)

theorem sendMessage_prompt_witness:
  "valid_refs ex_manager \<and>
   map_of (chats ex_manager) (sub_chatID ex_followup) = Some 0 \<and>
   prompt (projr (fst (sendMessage ex_followup ex_fresh1 ex_fresh2 ex_manager)))
     = [ex_root, newMessage ex_followup ex_fresh1 ex_chat] \<and>
   (let m = newMessage ex_followup ex_fresh1 (deref ex_manager 0) in
      parentID m = sub_parentID ex_followup \<and>
      map_of (messages (deref (snd (sendMessage ex_followup ex_fresh1 ex_fresh2 ex_manager)) 0))
        (msg_id m) = Some m \<and>
      prompt (projr (fst (sendMessage ex_followup ex_fresh1 ex_fresh2 ex_manager))) =
        (if truthy (sub_parentID ex_followup)
         then getMessageChainTo (messages (deref ex_manager 0) @ [(msg_id m, m)])
                (the (sub_parentID ex_followup))
         else []) @ [m])"
proof -
  have v: "valid_refs ex_manager" by (simp add: valid_refs_def ex_manager_def)
  have k: "map_of (chats ex_manager) (sub_chatID ex_followup) = Some 0"
    by (simp add: ex_manager_def ex_followup_def ex_submission_def)
  have r: "sendMessage ex_followup ex_fresh1 ex_fresh2 ex_manager
           = (Inr (projr (fst (sendMessage ex_followup ex_fresh1 ex_fresh2 ex_manager))),
              snd (sendMessage ex_followup ex_fresh1 ex_fresh2 ex_manager))"
    by (simp add: ex_send prod_eq_iff)
  have p: "prompt (projr (fst (sendMessage ex_followup ex_fresh1 ex_fresh2 ex_manager)))
     = [ex_root, newMessage ex_followup ex_fresh1 ex_chat]"
    by (simp add: ex_send)
  from sendMessage_prompt [OF v k r] v k p show ?thesis by blast
qed

text \<open>
  The chat has the root \<open>m1\<close>; a submission without a parent gives a node without a
  parent, not a child of \<open>m1\<close>, and a prompt that is the new message alone.
\<close>

theorem sendMessage_root_counterexample:
  "first (messages ex_chat) = Some ex_root \<and>
   get ex_manager (sub_chatID ex_submission) = Some ex_chat \<and>
   sub_parentID ex_submission = None \<and>
   map_option parentID
     (map_of (messages (deref (snd (sendMessage ex_submission ex_fresh1 ex_fresh2 ex_manager)) 0)) ''m2'')
     = Some None \<and>
   map msg_id (prompt (projr (fst (sendMessage ex_submission ex_fresh1 ex_fresh2 ex_manager)))) = [''m2'']"
  by (simp add: sendMessage_def getReply_def ex_submission_def ex_fresh1_def ex_fresh2_def ex_manager_def
      ex_chat_def ex_root_def newMessage_def addMessage_def deref_def assign_def emit_def postMessage_def
      truthy_def getMessageChainTo_def Let_def first_def get_def)

section \<open>The timestamp \<open>updated\<close>\<close>

lemma on_error_updated:
  assumes "chat_ref t < length (heap s)" and "content (reply t) = []"
  shows "updated (deref (snd (on_error now t s)) (chat_ref t)) = now"
  using assms by (simp add: on_error_def Let_def frame)

lemma on_done_updated:
  assumes "chat_ref t < length (heap s)"
  shows "updated (deref (snd (on_done now t s)) (chat_ref t)) = now"
  using assms by (simp add: on_done_def Let_def frame)

lemma on_data_updated: "updated (deref (snd (on_data d t s)) b) = updated (deref s b)"
  by (simp add: on_data_def Let_def frame)

lemma on_data_messages:
  assumes "chat_ref t < length (heap s)"
  shows "messages (deref (snd (on_data d t s)) (chat_ref t))
         = updateMessage ((reply t)\<lparr>content := d\<rparr>) (messages (deref s (chat_ref t)))"
  using assms by (simp add: on_data_def Let_def frame)

lemma getReply_updated:
  assumes "valid_refs s" and "getReply msgs params e s = (Inr t, s')"
  shows "updated (deref s' (chat_ref t)) = now2 e"
proof -
  note G = getReply_Inr [OF assms(2)]
  then have "map_of (chats s) (chatID (last msgs)) = Some (chat_ref t)" by simp
  with assms(1) have "chat_ref t < length (heap s)" by (rule valid_refs_lookup)
  then show ?thesis using G by (simp add: frame)
qed

lemma sendMessage_posted:
  assumes "valid_refs s" and "map_of (chats s) (sub_chatID message) = Some a"
    and "sendMessage message e1 e2 s = (Inr t, s')"
  shows "length (posted s') = length (posted s) + 2 \<and>
         updated (posted s' ! length (posted s)) = now2 e1 \<and>
         updated (posted s' ! Suc (length (posted s))) = now2 e2"
proof -
  have lt: "a < length (heap s)" using assms(1,2) by (rule valid_refs_lookup)
  note S = sendMessage_Inr [OF assms(3,2)]
  then have g: "getReply
           ((if truthy (sub_parentID message)
             then getMessageChainTo
                    (messages (deref (assign a (\<lambda>c. c\<lparr>messages := messages (deref s a) @ [(uuid e1, newMessage message e1 (deref s a))]\<rparr>) s) a))
                    (the (sub_parentID message))
             else []) @ [newMessage message e1 (deref s a)])
           (requestedParameters message) e2
           (postMessage a
              (emit ''messages'' (Messages [newMessage message e1 (deref s a)])
                 (emit (chat_id (deref s a)) NoArgs
                    (assign a (\<lambda>c. c\<lparr>updated := now2 e1\<rparr>)
                       (assign a (\<lambda>c. c\<lparr>messages := messages (deref s a) @ [(uuid e1, newMessage message e1 (deref s a))]\<rparr>) s))))) = (Inr t, s')"
    by simp
  note G = getReply_Inr [OF g]
  have "map_of (chats s) (chatID (newMessage message e1 (deref s a))) = Some (chat_ref t)"
    using G by (simp add: postMessage_def emit_def assign_def)
  then have lt2: "chat_ref t < length (heap s)" using assms(1) by (simp add: valid_refs_lookup)
  show ?thesis using G lt lt2
    by (simp add: frame nth_append)
qed

lemma deliver_updated_mono:
  assumes "chat_ref t < length (heap s)" and "updated (deref s (chat_ref t)) \<le> now"
    and "ev = Data d \<or> ev = Error now \<or> ev = Done now"
  shows "updated (deref s (chat_ref t)) \<le> updated (deref (snd (deliver ev (t, s))) (chat_ref t))"
proof -
  consider "ev = Data d" | "ev = Error now" "content (reply t) = []"
    | "ev = Error now" "content (reply t) \<noteq> []" | "ev = Done now"
    using assms(3) by blast
  then show ?thesis
  proof cases
    case 1
    then show ?thesis by (simp add: on_data_updated)
  next
    case 2
    then show ?thesis using assms(1,2) by (simp add: on_error_updated)
  next
    case 3
    then show ?thesis by (simp add: on_error_nonempty)
  next
    case 4
    then show ?thesis using assms(1,2) by (simp add: on_done_updated)
  qed
qed

text \<open>
  C5 (as amended). \<open>updated\<close> is set to the reading of the clock when an error event
  writes the apology, on the done event, when \<open>getReply\<close> inserts the reply node and
  when \<open>sendMessage\<close> inserts the user message (the snapshot it posts then carries that
  reading, the one posted after the reply node is inserted the next). A data event
  replaces the content of the reply in the tree and leaves \<open>updated\<close> as it was. With a
  reading that is not before the chat's \<open>updated\<close>, no event of the turn lowers it.
\<close>

theorem updated_bumps:
  assumes "chat_ref t < length (heap s)" and "valid_refs s2"
  shows
    "(content (reply t) = [] \<longrightarrow> updated (deref (snd (on_error now t s)) (chat_ref t)) = now) \<and>
     updated (deref (snd (on_done now t s)) (chat_ref t)) = now \<and>
     (fst (getReply msgs params e s2) = Inr t2 \<longrightarrow>
        updated (deref (snd (getReply msgs params e s2)) (chat_ref t2)) = now2 e) \<and>
     (fst (sendMessage message e1 e2 s2) = Inr t3 \<longrightarrow>
        updated (posted (snd (sendMessage message e1 e2 s2)) ! length (posted s2)) = now2 e1 \<and>
        updated (posted (snd (sendMessage message e1 e2 s2)) ! Suc (length (posted s2))) = now2 e2) \<and>
     messages (deref (snd (on_data d t s)) (chat_ref t))
       = updateMessage ((reply t)\<lparr>content := d\<rparr>) (messages (deref s (chat_ref t))) \<and>
     updated (deref (snd (on_data d t s)) (chat_ref t)) = updated (deref s (chat_ref t)) \<and>
     (updated (deref s (chat_ref t)) \<le> now \<and> (ev = Data d \<or> ev = Error now \<or> ev = Done now) \<longrightarrow>
        updated (deref s (chat_ref t)) \<le> updated (deref (snd (deliver ev (t, s))) (chat_ref t)))"
proof (intro conjI impI)
  show "updated (deref s (chat_ref t)) \<le> updated (deref (snd (deliver ev (t, s))) (chat_ref t))"
    if "updated (deref s (chat_ref t)) \<le> now \<and> (ev = Data d \<or> ev = Error now \<or> ev = Done now)"
    using assms(1) that deliver_updated_mono by blast
  show "content (reply t) = [] \<Longrightarrow> updated (deref (snd (on_error now t s)) (chat_ref t)) = now"
    using assms(1) by (rule on_error_updated)
  show "updated (deref (snd (on_done now t s)) (chat_ref t)) = now"
    using assms(1) by (rule on_done_updated)
  show "updated (deref (snd (getReply msgs params e s2)) (chat_ref t2)) = now2 e"
    if "fst (getReply msgs params e s2) = Inr t2"
  proof -
    from that have "getReply msgs params e s2 = (Inr t2, snd (getReply msgs params e s2))"
      by (simp add: prod_eq_iff)
    with assms(2) show ?thesis by (rule getReply_updated)
  qed
  show "messages (deref (snd (on_data d t s)) (chat_ref t))
       = updateMessage ((reply t)\<lparr>content := d\<rparr>) (messages (deref s (chat_ref t)))"
    using assms(1) by (rule on_data_messages)
  show "updated (deref (snd (on_data d t s)) (chat_ref t)) = updated (deref s (chat_ref t))"
    by (rule on_data_updated)
next
  assume f: "fst (sendMessage message e1 e2 s2) = Inr t3"
  then have r: "sendMessage message e1 e2 s2 = (Inr t3, snd (sendMessage message e1 e2 s2))"
    by (simp add: prod_eq_iff)
  then obtain a where a: "map_of (chats s2) (sub_chatID message) = Some a"
    by (cases "map_of (chats s2) (sub_chatID message)") (auto simp: sendMessage_def)
  from sendMessage_posted [OF assms(2) a r]
  show "updated (posted (snd (sendMessage message e1 e2 s2)) ! length (posted s2)) = now2 e1"
    and "updated (posted (snd (sendMessage message e1 e2 s2)) ! Suc (length (posted s2))) = now2 e2"
    by simp_all
qed

theorem updated_bumps_witness:
  "chat_ref ex_turn < length (heap ex_pending) \<and> valid_refs ex_manager \<and>
   content (reply ex_turn) = [] \<and>
   updated (deref ex_pending 0) = 6 \<and>
   updated (deref (snd (on_error 9 ex_turn ex_pending)) 0) = 9 \<and>
   updated (deref (snd (on_done 9 ex_turn ex_pending)) 0) = 9 \<and>
   updated (deref (snd (on_data ''Hi'' ex_turn ex_pending)) 0) = 6 \<and>
   updated (deref (snd (getReply [ex_root] \<lparr>apiKey = None\<rparr> ex_fresh2 ex_manager)) 0) = 9 \<and>
   updated (posted (snd (sendMessage ex_followup ex_fresh1 ex_fresh2 ex_manager)) ! 0) = 7 \<and>
   updated (posted (snd (sendMessage ex_followup ex_fresh1 ex_fresh2 ex_manager)) ! 1) = 9"
proof -
  have h1: "chat_ref ex_turn < length (heap ex_pending)"
    by (simp add: ex_turn_def ex_pending_def)
  have h2: "valid_refs ex_manager" by (simp add: valid_refs_def ex_manager_def)
  have c: "content (reply ex_turn) = []" "chat_ref ex_turn = 0"
    by (simp_all add: ex_turn_def ex_reply_def)
  have u: "updated (deref ex_pending 0) = 6"
    by (simp add: ex_pending_def deref_def)
  have p: "posted ex_manager = []" by (simp add: ex_manager_def)
  have n: "now2 ex_fresh1 = 7" "now2 ex_fresh2 = 9" by (simp_all add: ex_fresh1_def ex_fresh2_def)
  have g: "fst (getReply [ex_root] \<lparr>apiKey = None\<rparr> ex_fresh2 ex_manager)
           = Inr \<lparr>reply = \<lparr>msg_id = ''m3'', parentID = Some ''m1'', chatID = ''c1'',
                            timestamp = 8, role = Assistant, content = [], msg_done = False\<rparr>,
                   chat_ref = 0, prompt = [ex_root], turn_parameters = \<lparr>apiKey = None\<rparr>\<rparr>"
    by (simp add: getReply_def ex_fresh2_def ex_manager_def ex_chat_def ex_root_def
        addMessage_def deref_def Let_def)
  from updated_bumps [OF h1 h2, where now = 9 and msgs = "[ex_root]"
      and params = "\<lparr>apiKey = None\<rparr>" and e = ex_fresh2 and message = ex_followup
      and ?e1.0 = ex_fresh1 and ?e2.0 = ex_fresh2 and d = "''Hi''" and ev = "Data ''Hi''"
      and ?t2.0 = "projr (fst (getReply [ex_root] \<lparr>apiKey = None\<rparr> ex_fresh2 ex_manager))"
      and ?t3.0 = "projr (fst (sendMessage ex_followup ex_fresh1 ex_fresh2 ex_manager))"]
    ex_send g h1 h2 c u p n
  show ?thesis by simp
qed

text \<open>
  A data event on the pending reply: the node's content changes from empty to the text
  delivered, and \<open>updated\<close> is 6 before and after.
\<close>

theorem data_event_counterexample:
  "content (the (map_of (messages (deref ex_pending 0)) ''m2'')) = [] \<and>
   content (the (map_of (messages (deref (snd (on_data ''Hi'' ex_turn ex_pending)) 0)) ''m2'')) = ''Hi'' \<and>
   updated (deref ex_pending 0) = 6 \<and>
   updated (deref (snd (on_data ''Hi'' ex_turn ex_pending)) 0) = 6"
  by (simp add: on_data_def ex_turn_def ex_pending_def ex_manager_def ex_chat_def ex_reply_def
      ex_root_def updateMessage_def deref_def assign_def emit_def postMessage_def Let_def)

section \<open>Processing search results\<close>

lemma ellipsize_Nil_iff: "ellipsize text n = [] \<longleftrightarrow> text = []"
  by (auto simp: ellipsize_def)

lemma process_item_result:
  assumes "map_of (chats s) (item_id s it) = Some a"
  shows "fst (process_item it s) =
     (let c = deref s a;
          text = (case first (messages c) of None \<Rightarrow> [] | Some m \<Rightarrow> content m);
          description = ellipsize text 400
      in if text = [] then None
         else Some \<lparr>res_chatID = item_id s it,
                    res_title = (if truthy (title c) then the (title c)
                                 else ellipsize description 100),
                    res_description = description\<rparr>)"
  using assms
  by (simp add: process_item_def alloc_def deref_def assign_def Let_def truthy_def
      ellipsize_Nil_iff)

lemma process_item_absent:
  assumes "map_of (chats s) (item_id s it) = None"
  shows "process_item it s = (None, s)"
  using assms by (simp add: process_item_def)

lemma process_item_state: "\<exists>copies. snd (process_item it s) = s\<lparr>heap := heap s @ copies\<rparr>"
proof (cases "map_of (chats s) (item_id s it)")
  case None
  then have "snd (process_item it s) = s\<lparr>heap := heap s @ []\<rparr>"
    by (simp add: process_item_def)
  then show ?thesis by blast
next
  case (Some a)
  then show ?thesis
    by (auto simp: process_item_def alloc_def deref_def assign_def Let_def)
qed

lemma process_items_state:
  "\<exists>copies. snd (process_items items out s) = s\<lparr>heap := heap s @ copies\<rparr>"
proof (induction items arbitrary: out s)
  case Nil
  have "snd (process_items [] out s) = s\<lparr>heap := heap s @ []\<rparr>" by simp
  then show ?case by blast
next
  case (Cons it items)
  obtain r s1 where p: "process_item it s = (r, s1)" by (cases "process_item it s")
  obtain c1 where s1: "s1 = s\<lparr>heap := heap s @ c1\<rparr>"
    using process_item_state [of it s] p by auto
  obtain c2 where "snd (process_items items (case r of None \<Rightarrow> out | Some e \<Rightarrow> out @ [e]) s1)
                     = s1\<lparr>heap := heap s1 @ c2\<rparr>"
    using Cons.IH by blast
  then have "snd (process_items (it # items) out s) = s\<lparr>heap := heap s @ (c1 @ c2)\<rparr>"
    using p s1 by (cases r) simp_all
  then show ?case by blast
qed

lemma query_state: "\<exists>copies. snd (query search_index q s) = s\<lparr>heap := heap s @ copies\<rparr>"
proof (cases "length (trim q) = 0")
  case True
  then show ?thesis
    using process_items_state by (simp add: query_def processSearchResults_def Let_def)
next
  case False
  obtain out s1 where p: "process_items (map Hit (search_index (index s) q Fuzzy)) [] s = (out, s1)"
    by (cases "process_items (map Hit (search_index (index s) q Fuzzy)) [] s")
  obtain c1 where s1: "s1 = s\<lparr>heap := heap s @ c1\<rparr>"
    using process_items_state [of "map Hit (search_index (index s) q Fuzzy)" "[]" s] p by auto
  show ?thesis
  proof (cases "out = []")
    case True
    obtain c2 where "snd (process_items (map Hit (search_index (index s1) q Prefix)) [] s1)
                       = s1\<lparr>heap := heap s1 @ c2\<rparr>"
      using process_items_state by blast
    then have "snd (query search_index q s) = s\<lparr>heap := heap s @ (c1 @ c2)\<rparr>"
      using False p s1 True by (simp add: query_def processSearchResults_def)
    then show ?thesis by blast
  next
    case f: False
    then have "snd (query search_index q s) = s\<lparr>heap := heap s @ c1\<rparr>"
      using False p s1 by (simp add: query_def processSearchResults_def)
    then show ?thesis by blast
  qed
qed

lemma valid_refs_query: "valid_refs s \<Longrightarrow> valid_refs (snd (query search_index q s))"
  using query_state [of search_index q s] valid_refs_grown by auto

text \<open>
  C10. A call of \<open>query\<close> leaves the map as it was and every chat object that was in the
  store as it was: the objects it writes to are the copies, allocated behind them. So
  every chat of the map has, after the call, the title and all other fields it had
  before.
\<close>

theorem query_leaves_stored_chats:
  "chats (snd (query search_index q s)) = chats s \<and>
   (\<forall>a<length (heap s). deref (snd (query search_index q s)) a = deref s a) \<and>
   (valid_refs s \<longrightarrow> (\<forall>i. get (snd (query search_index q s)) i = get s i))"
proof -
  obtain copies where c: "snd (query search_index q s) = s\<lparr>heap := heap s @ copies\<rparr>"
    using query_state by blast
  have 1: "chats (snd (query search_index q s)) = chats s" by (simp add: c)
  have 2: "deref (snd (query search_index q s)) a = deref s a" if "a < length (heap s)" for a
    using that by (simp add: c deref_def nth_append)
  have 3: "get (snd (query search_index q s)) i = get s i" if "valid_refs s" for i
  proof (cases "map_of (chats s) i")
    case None
    then show ?thesis by (simp add: get_def 1)
  next
    case (Some a)
    with that have "a < length (heap s)" by (rule valid_refs_lookup)
    then show ?thesis using Some by (simp add: get_def 1 2)
  qed
  from 1 2 3 show ?thesis by blast
qed

text \<open>
  The stored chat has no title; the entry returned for it has the fallback title, and
  the stored chat still has none.
\<close>

theorem query_leaves_stored_chats_witness:
  "valid_refs ex_manager \<and>
   fst (query (\<lambda>docs q opt. []) [] ex_manager)
     = [\<lparr>res_chatID = ''c1'', res_title = ''Hello'', res_description = ''Hello''\<rparr>] \<and>
   get (snd (query (\<lambda>docs q opt. []) [] ex_manager)) ''c1'' = Some ex_chat \<and>
   title ex_chat = None \<and>
   deref (snd (query (\<lambda>docs q opt. []) [] ex_manager)) 0 = deref ex_manager 0 \<and>
   chats (snd (query (\<lambda>docs q opt. []) [] ex_manager)) = chats ex_manager"
proof -
  have v: "valid_refs ex_manager" by (simp add: valid_refs_def ex_manager_def)
  have g: "get ex_manager ''c1'' = Some ex_chat" "(0::nat) < length (heap ex_manager)"
    by (simp_all add: get_def ex_manager_def deref_def)
  have t: "title ex_chat = None" by (simp add: ex_chat_def)
  have r: "fst (query (\<lambda>docs q opt. []) [] ex_manager)
     = [\<lparr>res_chatID = ''c1'', res_title = ''Hello'', res_description = ''Hello''\<rparr>]"
    by (simp add: query_def trim_def processSearchResults_def process_item_def ex_manager_def
        ex_chat_def ex_root_def alloc_def deref_def assign_def item_id_def first_def
        ellipsize_def truthy_def Let_def)
  from query_leaves_stored_chats [of "\<lambda>docs q opt. []" "[]" ex_manager] v g t r
  show ?thesis by simp
qed


lemma item_id_grown:
  assumes "\<forall>a. it = Stored a \<longrightarrow> a < length (heap s)"
  shows "item_id (s\<lparr>heap := heap s @ copies\<rparr>) it = item_id s it"
  using assms by (cases it) (simp_all add: item_id_def deref_def nth_append)

lemma process_item_grown:
  assumes "valid_refs s" and "\<forall>a. it = Stored a \<longrightarrow> a < length (heap s)"
  shows "fst (process_item it (s\<lparr>heap := heap s @ copies\<rparr>)) = fst (process_item it s)"
proof (cases "map_of (chats s) (item_id s it)")
  case None
  then show ?thesis
    using item_id_grown [OF assms(2), of copies] by (simp add: process_item_def)
next
  case (Some a)
  then have lt: "a < length (heap s)" using assms(1) by (simp add: valid_refs_lookup)
  have "map_of (chats (s\<lparr>heap := heap s @ copies\<rparr>)) (item_id (s\<lparr>heap := heap s @ copies\<rparr>) it) = Some a"
    using Some item_id_grown [OF assms(2), of copies] by simp
  from process_item_result [OF this] process_item_result [OF Some] lt
  show ?thesis
    using item_id_grown [OF assms(2), of copies] by (simp add: deref_def nth_append Let_def)
qed

lemma process_items_results:
  assumes "valid_refs s" and "\<forall>a. Stored a \<in> set items \<longrightarrow> a < length (heap s)"
  shows "fst (process_items items out (s\<lparr>heap := heap s @ copies\<rparr>))
         = out @ List.map_filter (\<lambda>it. fst (process_item it s)) items"
  using assms(2)
proof (induction items arbitrary: out copies)
  case Nil
  then show ?case by simp
next
  case (Cons it items)
  let ?s = "s\<lparr>heap := heap s @ copies\<rparr>"
  obtain r s1 where p: "process_item it ?s = (r, s1)" by (cases "process_item it ?s")
  obtain c1 where "s1 = ?s\<lparr>heap := heap ?s @ c1\<rparr>"
    using process_item_state [of it ?s] p by auto
  then have s1: "s1 = s\<lparr>heap := heap s @ (copies @ c1)\<rparr>" by simp
  have ok: "\<forall>a. it = Stored a \<longrightarrow> a < length (heap s)" using Cons.prems by simp
  have r: "r = fst (process_item it s)"
    using process_item_grown [OF assms(1) ok, of copies] p by simp
  have rest: "\<forall>a. Stored a \<in> set items \<longrightarrow> a < length (heap s)" using Cons.prems by simp
  show ?case
    using p r Cons.IH [OF rest, of _ "copies @ c1"] s1
    by (cases "fst (process_item it s)") simp_all
qed

text \<open>
  C8 (as amended). For a hit whose chat is in the map, the loop pushes an entry exactly
  when the first message of the chat has content, whatever the title: the description
  is that content cut at 400 code units with the ellipsis marker, and the title is the
  chat's title or, when it has none, the description cut at 100. The result for an array
  of hits is the sequence of the entries pushed for its elements.
\<close>

theorem search_hit_kept:
  assumes "map_of (chats s) (item_id s it) = Some a"
  shows "(let c = deref s a;
              text = (case first (messages c) of None \<Rightarrow> [] | Some m \<Rightarrow> content m);
              description = ellipsize text 400
          in fst (process_item it s) =
               (if text = [] then None
                else Some \<lparr>res_chatID = item_id s it,
                           res_title = (if truthy (title c) then the (title c)
                                        else ellipsize description 100),
                           res_description = description\<rparr>)) \<and>
         (valid_refs s \<and> (\<forall>b. Stored b \<in> set items \<longrightarrow> b < length (heap s)) \<longrightarrow>
            fst (processSearchResults items s)
              = List.map_filter (\<lambda>it. fst (process_item it s)) items)"
proof
  show "let c = deref s a;
              text = (case first (messages c) of None \<Rightarrow> [] | Some m \<Rightarrow> content m);
              description = ellipsize text 400
          in fst (process_item it s) =
               (if text = [] then None
                else Some \<lparr>res_chatID = item_id s it,
                           res_title = (if truthy (title c) then the (title c)
                                        else ellipsize description 100),
                           res_description = description\<rparr>)"
    using process_item_result [OF assms] by (simp add: Let_def)
  show "valid_refs s \<and> (\<forall>b. Stored b \<in> set items \<longrightarrow> b < length (heap s)) \<longrightarrow>
            fst (processSearchResults items s)
              = List.map_filter (\<lambda>it. fst (process_item it s)) items"
    using process_items_results [of s items "[]" "[]"] by (simp add: processSearchResults_def)
qed

lemma ex_hit:
  "fst (process_item (Hit ''c1'') ex_manager)
   = Some \<lparr>res_chatID = ''c1'', res_title = ''Hello'', res_description = ''Hello''\<rparr>"
  by (simp add: process_item_def ex_manager_def ex_chat_def ex_root_def alloc_def deref_def
      assign_def item_id_def first_def ellipsize_def truthy_def Let_def)

theorem search_hit_kept_witness:
  "map_of (chats ex_manager) (item_id ex_manager (Hit ''c1'')) = Some 0 \<and>
   valid_refs ex_manager \<and>
   title (deref ex_manager 0) = None \<and>
   fst (process_item (Hit ''c1'') ex_manager)
     = Some \<lparr>res_chatID = ''c1'', res_title = ''Hello'', res_description = ''Hello''\<rparr> \<and>
   fst (processSearchResults [Hit ''c1'', Hit ''c9'', Stored 0] ex_manager)
     = [\<lparr>res_chatID = ''c1'', res_title = ''Hello'', res_description = ''Hello''\<rparr>,
        \<lparr>res_chatID = ''c1'', res_title = ''Hello'', res_description = ''Hello''\<rparr>]"
proof -
  have k: "map_of (chats ex_manager) (item_id ex_manager (Hit ''c1'')) = Some 0"
    by (simp add: ex_manager_def item_id_def)
  have v: "valid_refs ex_manager" by (simp add: valid_refs_def ex_manager_def)
  have t: "title (deref ex_manager 0) = None" by (simp add: ex_manager_def ex_chat_def deref_def)
  have ok: "\<forall>b. Stored b \<in> set [Hit ''c1'', Hit ''c9'', Stored 0] \<longrightarrow> b < length (heap ex_manager)"
    by (simp add: ex_manager_def)
  have others: "fst (process_item (Hit ''c9'') ex_manager) = None"
    "fst (process_item (Stored 0) ex_manager)
     = Some \<lparr>res_chatID = ''c1'', res_title = ''Hello'', res_description = ''Hello''\<rparr>"
    by (simp_all add: process_item_def ex_manager_def ex_chat_def ex_root_def alloc_def deref_def
      assign_def item_id_def first_def ellipsize_def truthy_def Let_def)
  from search_hit_kept [OF k, of "[Hit ''c1'', Hit ''c9'', Stored 0]"] k v t ok ex_hit others
  show ?thesis by simp
qed

text \<open>A chat with the title \<open>Plans\<close> and no message: it has a usable title and is dropped.\<close>

theorem titled_hit_dropped_counterexample:
  "get ex_empty_titled ''c1'' = Some (ex_chat\<lparr>title := Some ''Plans'', messages := empty_tree\<rparr>) \<and>
   truthy (title (ex_chat\<lparr>title := Some ''Plans'', messages := empty_tree\<rparr>)) \<and>
   fst (processSearchResults [Hit ''c1''] ex_empty_titled) = []"
  by (simp add: processSearchResults_def process_item_def ex_empty_titled_def ex_manager_def
      ex_chat_def empty_tree_def alloc_def deref_def assign_def item_id_def first_def ellipsize_def
      truthy_def get_def Let_def)


section \<open>The query without text\<close>

lemma process_item_index:
  "process_item it (s\<lparr>index := docs\<rparr>)
   = (fst (process_item it s), (snd (process_item it s))\<lparr>index := docs\<rparr>)"
  by (cases it)
    (simp_all add: process_item_def alloc_def deref_def assign_def item_id_def Let_def
      split: option.splits)

lemma process_items_index:
  "process_items items out (s\<lparr>index := docs\<rparr>)
   = (fst (process_items items out s), (snd (process_items items out s))\<lparr>index := docs\<rparr>)"
proof (induction items arbitrary: out s)
  case Nil
  then show ?case by simp
next
  case (Cons it items)
  obtain r s1 where p: "process_item it s = (r, s1)" by (cases "process_item it s")
  then show ?case
    using Cons.IH by (cases r) (simp_all add: process_item_index)
qed

lemma process_items_length:
  "length (fst (process_items items out s)) \<le> length out + length items"
proof (induction items arbitrary: out s)
  case Nil
  then show ?case by simp
next
  case (Cons it items)
  obtain r s1 where p: "process_item it s = (r, s1)" by (cases "process_item it s")
  show ?case
  proof (cases r)
    case None
    then show ?thesis using p Cons.IH [of out s1] by simp
  next
    case (Some e)
    then show ?thesis using p Cons.IH [of "out @ [e]" s1] by simp
  qed
qed

lemma map_filter_map: "List.map_filter f (map g xs) = List.map_filter (\<lambda>x. f (g x)) xs"
  by (induction xs) (simp_all split: option.splits)

lemma sorted_by_updated:
  "sorted_wrt (\<lambda>a b. updated (deref s b) \<le> updated (deref s a))
     (sort_key (\<lambda>a. - updated (deref s a)) refs)"
proof -
  have "sorted (map (\<lambda>a. - updated (deref s a)) (sort_key (\<lambda>a. - updated (deref s a)) refs))"
    by (rule sorted_sort_key)
  then show ?thesis by (simp add: sorted_map)
qed

lemma trim_blank: "length (trim q) = 0 \<longleftrightarrow> list_all is_space q"
proof
  assume "length (trim q) = 0"
  then have a: "\<forall>x \<in> set (dropWhile is_space q). is_space x"
    by (simp add: trim_def)
  show "list_all is_space q"
  proof (cases "dropWhile is_space q")
    case Nil
    then show ?thesis by (simp add: list_all_iff)
  next
    case (Cons x xs)
    then have "\<not> is_space x" using hd_dropWhile [of is_space q] by simp
    with a Cons show ?thesis by simp
  qed
next
  assume "list_all is_space q"
  then have "\<forall>x \<in> set (dropWhile is_space q). is_space x"
    by (auto simp: list_all_iff dest: set_dropWhileD)
  then show "length (trim q) = 0" by (simp add: trim_def)
qed

text \<open>
  C7. For a query that is empty or holds white space only, which is a query that is
  empty after \<open>trim\<close>, the result is what
  \<open>processSearchResults\<close> makes of the first ten chats of the map in the order of
  \<open>updated\<close>, latest first: in a store whose references are valid, the entries of these
  chats in that order. It has at most ten entries and depends neither on the documents
  of the index nor on what a search of the index returns.
\<close>

theorem query_blank:
  assumes "list_all is_space q"
  shows "\<exists>ranked.
           mset ranked = mset (map snd (chats s)) \<and>
           sorted_wrt (\<lambda>a b. updated (deref s b) \<le> updated (deref s a)) ranked \<and>
           query search_index q s = processSearchResults (map Stored (take 10 ranked)) s \<and>
           (valid_refs s \<longrightarrow>
              fst (query search_index q s)
                = List.map_filter (\<lambda>a. fst (process_item (Stored a) s)) (take 10 ranked)) \<and>
           length (fst (query search_index q s)) \<le> 10 \<and>
           fst (query other_index q (s\<lparr>index := docs\<rparr>)) = fst (query search_index q s)"
proof -
  have blank: "length (trim q) = 0" using assms by (rule iffD2 [OF trim_blank])
  let ?ranked = "sort_key (\<lambda>a. - updated (deref s a)) (map snd (chats s))"
  have m: "mset ?ranked = mset (map snd (chats s))" by simp
  have q: "query search_index q s = processSearchResults (map Stored (take 10 ?ranked)) s"
    using blank by (simp add: query_def Let_def)
  have l: "length (fst (query search_index q s)) \<le> 10"
    using process_items_length [of "map Stored (take 10 ?ranked)" "[]" s]
    by (simp add: q processSearchResults_def)
  have i: "fst (query other_index q (s\<lparr>index := docs\<rparr>)) = fst (query search_index q s)"
    using blank
    by (simp add: query_def Let_def processSearchResults_def process_items_index deref_def)
  have v: "fst (query search_index q s)
             = List.map_filter (\<lambda>a. fst (process_item (Stored a) s)) (take 10 ?ranked)"
    if "valid_refs s"
  proof -
    have "b < length (heap s)" if "Stored b \<in> set (map Stored (take 10 ?ranked))" for b
    proof -
      from that have "b \<in> set (take 10 ?ranked)" by auto
      then have "b \<in> set ?ranked" by (rule in_set_takeD)
      then have "b \<in> snd ` set (chats s)" by simp
      then obtain k where "(k, b) \<in> set (chats s)" by auto
      with \<open>valid_refs s\<close> show ?thesis by (auto simp: valid_refs_def list_all_iff)
    qed
    then have "fst (process_items (map Stored (take 10 ?ranked)) [] (s\<lparr>heap := heap s @ []\<rparr>))
           = [] @ List.map_filter (\<lambda>it. fst (process_item it s)) (map Stored (take 10 ?ranked))"
      using that by (intro process_items_results) blast+
    then show ?thesis
      by (simp add: q processSearchResults_def map_filter_map)
  qed
  from m sorted_by_updated q v l i show ?thesis by blast
qed

text \<open>Chats updated at 5, 3, 8 and 1 come back in the order 8, 5, 3, 1.\<close>

theorem query_blank_witness:
  "list_all is_space [CHR '' '', CHR 0xA0, CHR 0x09] \<and>
   length (trim [CHR '' '', CHR 0xA0, CHR 0x09]) = 0 \<and>
   map (\<lambda>a. updated (deref ex_four a)) (map snd (chats ex_four)) = [5, 3, 8, 1] \<and>
   map res_chatID (fst (query (\<lambda>docs q opt. []) [CHR '' '', CHR 0xA0, CHR 0x09] ex_four)) = [''c'', ''a'', ''b'', ''d''] \<and>
   length (fst (query (\<lambda>docs q opt. []) [CHR '' '', CHR 0xA0, CHR 0x09] ex_four)) \<le> 10 \<and>
   fst (query (\<lambda>docs q opt. [''d'']) [CHR '' '', CHR 0xA0, CHR 0x09] (ex_four\<lparr>index := [(''d'', ''text'')]\<rparr>))
     = fst (query (\<lambda>docs q opt. []) [CHR '' '', CHR 0xA0, CHR 0x09] ex_four)"
proof -
  have b: "list_all is_space [CHR '' '', CHR 0xA0, CHR 0x09]" by (simp add: is_space_def)
  have t: "length (trim [CHR '' '', CHR 0xA0, CHR 0x09]) = 0" by (simp add: trim_def is_space_def)
  have u: "map (\<lambda>a. updated (deref ex_four a)) (map snd (chats ex_four)) = [5, 3, 8, 1]"
    by (simp add: ex_four_def ex_titled_def deref_def)
  have r: "map res_chatID (fst (query (\<lambda>docs q opt. []) [CHR '' '', CHR 0xA0, CHR 0x09] ex_four)) = [''c'', ''a'', ''b'', ''d'']"
    by (simp add: query_def trim_def is_space_def processSearchResults_def process_item_def
        ex_four_def ex_titled_def ex_root_def alloc_def deref_def assign_def item_id_def first_def
        ellipsize_def truthy_def Let_def)
  from query_blank [OF b, where s = ex_four and search_index = "\<lambda>docs q opt. []"
      and other_index = "\<lambda>docs q opt. [''d'']" and docs = "[(''d'', ''text'')]"]
    b t u r
  show ?thesis by blast
qed

section \<open>The persistence loop\<close>

lemma loop_turn_idle:
  assumes "\<not> (looping p \<and> loaded (mgr p) \<and> changed (mgr p))"
  shows "loop_turn accepted p = p"
  using assms by (auto simp: loop_turn_def)

lemma loop_turn_flush:
  assumes "looping p" and "loaded (mgr p)" and "changed (mgr p)"
  shows "loop_turn accepted p =
           p\<lparr>mgr := (mgr p)\<lparr>changed := False\<rparr>,
             saves := Suc (saves p),
             durable := (if accepted
                         then Some (map (\<lambda>a. serialized_of (deref (mgr p) a)) (map snd (chats (mgr p))))
                         else durable p),
             looping := accepted\<rparr>"
  using assms by (simp add: loop_turn_def save_def Let_def deref_def)

lemma run_stopped:
  "\<not> looping p \<Longrightarrow>
     saves (run os p) = saves p \<and> durable (run os p) = durable p \<and> \<not> looping (run os p)"
proof (induction os p rule: run.induct)
  case (1 p)
  then show ?case by simp
next
  case (2 accepted os p)
  then show ?case by (simp add: loop_turn_def)
next
  case (3 f os p)
  then show ?case by simp
qed

text \<open>
  C9 (as amended). A turn of the loop calls \<open>save\<close> exactly when the loop is running, the
  load has completed and the dirty flag is set; it then clears the flag and, when the
  store accepts, the durable slot holds the serialization of every chat of the map and
  the loop goes on. Otherwise the turn changes nothing. When the store rejects, the
  exception leaves the loop: from then on, whatever happens, \<open>save\<close> is not called again
  and the durable slot stays as it is.
\<close>

theorem persistence_loop:
  "(saves (loop_turn accepted p) \<noteq> saves p
      \<longleftrightarrow> looping p \<and> loaded (mgr p) \<and> changed (mgr p)) \<and>
   (looping p \<and> loaded (mgr p) \<and> changed (mgr p) \<longrightarrow>
      saves (loop_turn accepted p) = Suc (saves p) \<and>
      \<not> changed (mgr (loop_turn accepted p)) \<and>
      looping (loop_turn accepted p) = accepted \<and>
      durable (loop_turn accepted p) =
        (if accepted
         then Some (map (\<lambda>a. serialized_of (deref (mgr p) a)) (map snd (chats (mgr p))))
         else durable p)) \<and>
   (\<not> (looping p \<and> loaded (mgr p) \<and> changed (mgr p)) \<longrightarrow> loop_turn accepted p = p) \<and>
   (\<not> looping p \<longrightarrow>
      saves (run os p) = saves p \<and> durable (run os p) = durable p \<and> \<not> looping (run os p))"
proof (intro conjI impI)
  show "saves (loop_turn accepted p) \<noteq> saves p
      \<longleftrightarrow> looping p \<and> loaded (mgr p) \<and> changed (mgr p)"
  proof (cases "looping p \<and> loaded (mgr p) \<and> changed (mgr p)")
    case True
    then show ?thesis by (simp add: loop_turn_flush)
  next
    case False
    then show ?thesis by (simp add: loop_turn_idle)
  qed
next
  assume a: "looping p \<and> loaded (mgr p) \<and> changed (mgr p)"
  then have e: "loop_turn accepted p =
           p\<lparr>mgr := (mgr p)\<lparr>changed := False\<rparr>,
             saves := Suc (saves p),
             durable := (if accepted
                         then Some (map (\<lambda>a. serialized_of (deref (mgr p) a)) (map snd (chats (mgr p))))
                         else durable p),
             looping := accepted\<rparr>"
    by (simp add: loop_turn_flush)
  show "saves (loop_turn accepted p) = Suc (saves p)" by (simp add: e)
  show "\<not> changed (mgr (loop_turn accepted p))" by (simp add: e)
  show "looping (loop_turn accepted p) = accepted" by (simp add: e)
  show "durable (loop_turn accepted p) =
        (if accepted
         then Some (map (\<lambda>a. serialized_of (deref (mgr p) a)) (map snd (chats (mgr p))))
         else durable p)" by (simp add: e)
next
  assume "\<not> (looping p \<and> loaded (mgr p) \<and> changed (mgr p))"
  then show "loop_turn accepted p = p" by (rule loop_turn_idle)
next
  assume n: "\<not> looping p"
  then show "saves (run os p) = saves p" and "durable (run os p) = durable p"
    and "\<not> looping (run os p)"
    using run_stopped by blast+
qed

lemma ex_process_facts:
  "looping ex_process" "loaded (mgr ex_process)" "changed (mgr ex_process)"
  "saves ex_process = 0" "durable ex_process = None"
  by (simp_all add: ex_process_def ex_manager_def)

theorem persistence_loop_witness:
  "looping ex_process \<and> loaded (mgr ex_process) \<and> changed (mgr ex_process) \<and>
   saves (loop_turn False ex_process) = 1 \<and>
   \<not> changed (mgr (loop_turn False ex_process)) \<and>
   \<not> looping (loop_turn False ex_process) \<and>
   durable (loop_turn True ex_process) = Some [serialized_of ex_chat] \<and>
   looping (loop_turn True ex_process) \<and>
   loop_turn True (ex_process\<lparr>looping := False\<rparr>) = ex_process\<lparr>looping := False\<rparr> \<and>
   saves (run [Act (emit ''update'' NoArgs), Wake True] (loop_turn False ex_process)) = 1 \<and>
   durable (run [Act (emit ''update'' NoArgs), Wake True] (loop_turn False ex_process)) = None"
proof -
  have d: "map (\<lambda>a. serialized_of (deref (mgr ex_process) a)) (map snd (chats (mgr ex_process)))
           = [serialized_of ex_chat]"
    by (simp add: ex_process_def ex_manager_def deref_def)
  from persistence_loop [of False ex_process "[]"]
    persistence_loop [of True ex_process "[]"]
    persistence_loop [of True "ex_process\<lparr>looping := False\<rparr>" "[]"]
    persistence_loop [of False "loop_turn False ex_process" "[Act (emit ''update'' NoArgs), Wake True]"]
    ex_process_facts d
  show ?thesis by simp
qed

text \<open>
  The first save fails, an \<open>update\<close> event sets the flag again, the loop's next wake
  would be accepted: the flag is still set afterwards and \<open>save\<close> has been called once.
  With the first save accepted the same events give two calls.
\<close>

theorem failed_save_counterexample:
  "loaded (mgr (run [Wake False, Act (emit ''update'' NoArgs), Wake True] ex_process)) \<and>
   changed (mgr (run [Wake False, Act (emit ''update'' NoArgs), Wake True] ex_process)) \<and>
   saves (run [Wake False, Act (emit ''update'' NoArgs), Wake True] ex_process) = 1 \<and>
   durable (run [Wake False, Act (emit ''update'' NoArgs), Wake True] ex_process) = None \<and>
   saves (run [Wake True, Act (emit ''update'' NoArgs), Wake True] ex_process) = 2"
  by (simp add: loop_turn_def save_def emit_def ex_process_def ex_manager_def Let_def)

section \<open>Serializing and rebuilding a tree\<close>

lemma update_keeps_ids:
  assumes "\<forall>(k, m) \<in> set t. msg_id m = k" and "msg_id v = k0"
  shows "\<forall>(k, m) \<in> set (AList.update k0 v t). msg_id m = k"
  using assms by (induction t) auto

lemma built_keys:
  "built t \<Longrightarrow> distinct (map fst t) \<and> (\<forall>(k, m) \<in> set t. msg_id m = k)"
proof (induction rule: built.induct)
  case built_empty
  then show ?case by (simp add: empty_tree_def)
next
  case (built_add t m t')
  from built_add.hyps(3) have t': "t' = t @ [(msg_id m, m)]" and n: "map_of t (msg_id m) = None"
    by (auto simp: addMessage_def split: option.splits)
  from n have "msg_id m \<notin> fst ` set t" by (simp add: map_of_eq_None_iff)
  with built_add.IH show ?case by (auto simp: t')
next
  case (built_update t m)
  show ?case
  proof (cases "map_of t (msg_id m)")
    case None
    then show ?thesis using built_update.IH by (simp add: updateMessage_def)
  next
    case (Some n)
    then have "(msg_id m, n) \<in> set t" by (rule map_of_SomeD)
    then have "msg_id n = msg_id m" and "msg_id m \<in> fst ` set t"
      using built_update.IH by force+
    then show ?thesis
      using built_update.IH Some
        update_keeps_ids [of t "n\<lparr>content := content m, msg_done := msg_done m\<rparr>" "msg_id m"]
      by (simp add: updateMessage_def update_keys)
  qed
qed

lemma add_all_rebuilds:
  assumes "distinct (map fst (t0 @ t))" and "\<forall>(k, m) \<in> set t. msg_id m = k"
  shows "add_all (map snd t) t0 = Inr (t0 @ t)"
  using assms
proof (induction t arbitrary: t0)
  case Nil
  then show ?case by simp
next
  case (Cons km t)
  obtain k m where km: "km = (k, m)" by (cases km)
  have id: "msg_id m = k" using Cons.prems(2) km by simp
  have "k \<notin> fst ` set t0" using Cons.prems(1) km by auto
  then have "map_of t0 k = None" by (simp add: map_of_eq_None_iff)
  then have a: "addMessage m t0 = Inr (t0 @ [(k, m)])" by (simp add: addMessage_def id)
  have "add_all (map snd t) (t0 @ [(k, m)]) = Inr ((t0 @ [(k, m)]) @ t)"
    using Cons.prems km by (intro Cons.IH) auto
  then show ?case by (simp add: km a)
qed

text \<open>
  C6. For a tree built from valid insertions, with updates in place in between, the
  loop of \<open>load\<close> over the serialized sequence succeeds and gives the tree itself: the
  same ids in the same order, each with the same node, so the same parent links and the
  same \<open>content\<close> and \<open>done\<close>.
\<close>

theorem reconstruct_serialize:
  assumes "built t"
  shows "reconstruct (serialize t) = Inr t"
  using built_keys [OF assms] add_all_rebuilds [of "[]" t]
  by (simp add: reconstruct_def serialize_def empty_tree_def)

lemma ex_tree_built: "built ex_tree"
proof -
  have 1: "built [(''m1'', ex_root)]"
    by (rule built_add [OF built_empty, of ex_root])
      (simp_all add: valid_insertion_def addMessage_def empty_tree_def ex_root_def)
  have 2: "built [(''m1'', ex_root), (''m2'', ex_reply)]"
    by (rule built_add [OF 1, of ex_reply])
      (simp_all add: valid_insertion_def addMessage_def ex_root_def ex_reply_def)
  show ?thesis unfolding ex_tree_def by (rule built_update [OF 2])
qed

theorem reconstruct_serialize_witness:
  "built ex_tree \<and>
   serialize ex_tree = [ex_root, ex_reply\<lparr>content := ''Hi'', msg_done := True\<rparr>] \<and>
   reconstruct (serialize ex_tree) = Inr ex_tree"
proof -
  have s: "serialize ex_tree = [ex_root, ex_reply\<lparr>content := ''Hi'', msg_done := True\<rparr>]"
    by (simp add: serialize_def ex_tree_def updateMessage_def ex_reply_def)
  from ex_tree_built reconstruct_serialize [OF ex_tree_built] s show ?thesis by blast
qed

end
